theory Spec2Isabelle
  imports Main "HOL-Library.AList"
begin

section \<open>The connection proxy (server/lsp/proxy.ts)\<close>

text \<open>
  A \<open>LanguageServerProxy\<close> is an object with mutable fields; every method is modelled as a
  function from the object's state to its new state (and the value the method returns).
  Everything a method does to its collaborators (the HTTP request emitter, the reply table,
  the JSON-RPC client connection, the socket, the event emitter) is appended to the field
  \<open>effects\<close> in the order in which the source performs it, so that statements about the
  order of two actions are statements about this list.

  Conventions of the model.
  \<^item> JavaScript numbers that count (\<open>sequenceNumber\<close>, message ids) are natural numbers;
    the loss of precision of \<open>++\<close> beyond \<open>2^53\<close> is not modelled.
  \<^item> \<open>params: any\<close> is an opaque payload, here a string.
  \<^item> Calls to the optional logger change nothing the proxy can observe and are left out.
  \<^item> Each call of \<open>receiveRequest\<close> creates a new promise; a promise is identified by
    its index in the field \<open>promises\<close>, which records whether the source has settled it.
    The pair \<open>[resolve, reject]\<close> stored in the reply table is identified with the promise
    it settles.
  \<^item> A method is executed as one atomic step. Where the source awaits a collaborator
    (the reply to the \<open>shutdown\<close> request), the way the awaited promise settles is an
    argument of the model.
\<close>

record RequestMessage =
  jsonrpc :: string
  msg_id :: nat
  msg_method :: string
  msg_params :: string

datatype PromiseState = Pending | Resolved

datatype Effect =
    HttpEmit RequestMessage
  | RepliesSet nat nat
  | PromiseResolve nat
  | SendRequest string
  | SendNotification string
  | ConnDispose
  | EventEmit string
  | NewSocket
  | SocketConnect
  | CreateMessageConnection nat
  | ClientListen nat
  | ClientDispose nat

record LanguageServerProxy =
  lastAccess :: "int option"
  initialized :: bool
  socket :: bool
  clientConnection :: "nat option"
  closed :: bool
  sequenceNumber :: nat
  replies :: "(nat \<times> nat) list"
  connectingPromise :: bool
  connections :: nat
  promises :: "PromiseState list"
  effects :: "Effect list"

text \<open>
  Field initialisers and constructor of the class: no socket, no client connection
  (\<open>null\<close>), not closed, sequence number 0, an empty reply table, no connecting promise.
  \<open>lastAccess\<close> is the optional field of \<open>ILanguageServerHandler\<close>; it is undefined
  until the controller assigns it. \<open>connections\<close> counts the message connections created
  so far and names the next one.
\<close>

definition LanguageServerProxy_constructor :: LanguageServerProxy where
  "LanguageServerProxy_constructor =
     \<lparr> lastAccess = None, initialized = False, socket = False, clientConnection = None,
       closed = False, sequenceNumber = 0, replies = [], connectingPromise = False,
       connections = 0, promises = [], effects = [] \<rparr>"

text \<open>The default value of the parameter \<open>isNotification: boolean = false\<close>.\<close>

definition default_false :: "bool option \<Rightarrow> bool" where
  "default_false b = (case b of None \<Rightarrow> False | Some v \<Rightarrow> v)"

text \<open>
  \<open>receiveRequest(method, params, isNotification = false)\<close>: the message takes the current
  sequence number, which is then incremented (\<open>this.sequenceNumber++\<close>); the promise
  executor runs at once and either emits and resolves (notification) or stores the
  continuation under the message id and then emits. The result is the new promise.
\<close>

definition receiveRequest ::
  "string \<Rightarrow> string \<Rightarrow> bool option \<Rightarrow> LanguageServerProxy \<Rightarrow> nat \<times> LanguageServerProxy" where
  "receiveRequest meth ps isNotification p =
     (let message = \<lparr> jsonrpc = ''2.0'', msg_id = sequenceNumber p,
                       msg_method = meth, msg_params = ps \<rparr>;
          p1 = p\<lparr> sequenceNumber := sequenceNumber p + 1 \<rparr>;
          pr = length (promises p1);
          p2 = p1\<lparr> promises := promises p1 @ [Pending] \<rparr>
      in if default_false isNotification
         then (pr, p2\<lparr> effects := effects p2 @ [HttpEmit message, PromiseResolve pr],
                       promises := (promises p2)[pr := Resolved] \<rparr>)
         else (pr, p2\<lparr> replies := AList.update (msg_id message) pr (replies p2),
                       effects := effects p2 @ [RepliesSet (msg_id message) pr, HttpEmit message] \<rparr>))"

text \<open>The request shape \<open>LspRequest\<close> (its optional fields are options).\<close>

record LspRequest =
  req_method :: string
  req_params :: string
  isNotification :: "bool option"
  resolvedFilePath :: "string option"
  workspacePath :: "string option"

definition proxy_handleRequest :: "LspRequest \<Rightarrow> LanguageServerProxy \<Rightarrow> nat \<times> LanguageServerProxy" where
  "proxy_handleRequest request p =
     receiveRequest (req_method request) (req_params request) (isNotification request) p"

text \<open>A run of successive calls, with the promises they return in call order.\<close>

fun receiveRequests ::
  "(string \<times> string \<times> bool option) list \<Rightarrow> LanguageServerProxy \<Rightarrow> nat list \<times> LanguageServerProxy" where
  "receiveRequests [] p = ([], p)"
| "receiveRequests ((meth, ps, n) # cs) p =
     (case receiveRequest meth ps n p of
        (pr, p') \<Rightarrow> (case receiveRequests cs p' of (prs, p'') \<Rightarrow> (pr # prs, p'')))"

text \<open>The messages handed to the HTTP emitter, oldest first.\<close>

fun emitted :: "Effect list \<Rightarrow> RequestMessage list" where
  "emitted [] = []"
| "emitted (HttpEmit m # es) = m # emitted es"
| "emitted (_ # es) = emitted es"

text \<open>
  How an awaited promise of a collaborator settles: fulfilled, rejected, or never.
\<close>

datatype Settled = Fulfilled | Rejected | NeverSettles

datatype ExitResult = ExitDone | ExitFailed | ExitHangs

text \<open>
  \<open>exit()\<close>: with a client connection, send \<open>shutdown\<close> and await the reply; on fulfilment
  send the \<open>exit\<close> notification and dispose the inbound connection. A rejected reply makes
  the \<open>await\<close> throw, so the method ends there; a reply that never comes leaves it
  suspended. Then \<open>closed = true\<close> and the event \<open>exit\<close> is emitted.
\<close>

definition proxy_exit :: "Settled \<Rightarrow> LanguageServerProxy \<Rightarrow> ExitResult \<times> LanguageServerProxy" where
  "proxy_exit shutdownReply p =
     (case clientConnection p of
        Some clientConn \<Rightarrow>
          (let p1 = p\<lparr> effects := effects p @ [SendRequest ''shutdown''] \<rparr> in
           case shutdownReply of
             Fulfilled \<Rightarrow>
               (ExitDone,
                p1\<lparr> closed := True,
                    effects := effects p1 @ [SendNotification ''exit'', ConnDispose, EventEmit ''exit''] \<rparr>)
           | Rejected \<Rightarrow> (ExitFailed, p1)
           | NeverSettles \<Rightarrow> (ExitHangs, p1))
      | None \<Rightarrow> (ExitDone, p\<lparr> closed := True, effects := effects p @ [EventEmit ''exit''] \<rparr>))"

text \<open>
  \<open>connect()\<close>, the part that runs in the call: an existing client connection is returned
  as it is; otherwise \<open>closed\<close> is reset, and the socket is created (first call) and told
  to connect. The result says whether the returned promise is the already resolved one
  for the existing connection (\<open>Some\<close> of it) or the connecting promise (\<open>None\<close>).
\<close>

definition connect :: "LanguageServerProxy \<Rightarrow> nat option \<times> LanguageServerProxy" where
  "connect p =
     (case clientConnection p of
        Some clientConn \<Rightarrow> (Some clientConn, p)
      | None \<Rightarrow>
          (let p1 = p\<lparr> closed := False \<rparr> in
           if \<not> connectingPromise p1
           then (None, p1\<lparr> connectingPromise := True, socket := True,
                           effects := effects p1 @ [NewSocket, SocketConnect] \<rparr>)
           else (None, p1\<lparr> effects := effects p1 @ [SocketConnect] \<rparr>)))"

text \<open>
  The listener that \<open>connect()\<close> registers for the socket's \<open>connect\<close> event: it creates
  the message connection, starts listening, resolves the connecting promise and emits
  \<open>connect\<close>. The listener exists once the connecting promise does.
\<close>

definition socket_on_connect :: "LanguageServerProxy \<Rightarrow> LanguageServerProxy" where
  "socket_on_connect p =
     (if connectingPromise p
      then p\<lparr> clientConnection := Some (connections p), connections := connections p + 1,
              effects := effects p @ [CreateMessageConnection (connections p),
                                      ClientListen (connections p), EventEmit ''connect''] \<rparr>
      else p)"

text \<open>\<open>onSocketClosed()\<close>, the listener for the socket's \<open>close\<close> event.\<close>

definition onSocketClosed :: "LanguageServerProxy \<Rightarrow> LanguageServerProxy" where
  "onSocketClosed p =
     (let p1 = (case clientConnection p of
                  Some clientConn \<Rightarrow> p\<lparr> effects := effects p @ [ClientDispose clientConn] \<rparr>
                | None \<Rightarrow> p)
      in p1\<lparr> clientConnection := None, effects := effects p1 @ [EventEmit ''close''] \<rparr>)"

text \<open>\<open>isClosed\<close>, the getter.\<close>

definition isClosed :: "LanguageServerProxy \<Rightarrow> bool" where
  "isClosed p = closed p"

text \<open>The reply table holds no entry for a sequence number that is still to be given out.\<close>

definition replies_below :: "LanguageServerProxy \<Rightarrow> bool" where
  "replies_below p = (\<forall>k \<in> fst ` set (replies p). k < sequenceNumber p)"


section \<open>The controller (server/lsp/controller.ts)\<close>

text \<open>
  The controller owns one \<open>LanguageServerData\<close> object per language server definition and
  a map from language (and definition name) to these objects. The handlers it pools are
  objects too: the controller assigns their \<open>lastAccess\<close> and stores references to them
  in the handler maps. The model keeps all handler objects in one store
  (\<open>handlerObjects\<close>, a list; a reference is an index into it) and the
  \<open>LanguageServerData\<close> objects in the list \<open>languageServers\<close>, to which
  \<open>languageServerMap\<close> refers by index.

  A JavaScript object used as a dictionary (\<open>languageServerMap\<close>, a
  \<open>LanguageServerHandlerMap\<close>) is an association list in the order in which the keys were
  created: assignment is \<open>AList.update\<close> (an existing key keeps its place, a new key goes
  last), \<open>delete\<close> is \<open>AList.delete\<close>, and \<open>Object.entries\<close> is the list itself. These
  objects are created by \<open>{}\<close>, so the read of a key that the object does not have
  reaches \<open>Object.prototype\<close>. The keys of \<open>languageServerMap\<close> are whatever string a
  caller passes as \<open>lang\<close>, and its reads go through the prototype
  (\<open>languageServerMap_get\<close> below). The keys of a handler map are workspace paths, and
  the model reads it with \<open>map_of\<close>: a workspace path is taken not to be the name of a
  property of \<open>Object.prototype\<close> or of a \<open>LanguageServerData\<close>. (Keys that are canonical
  array indices, which JavaScript enumerates first, are not modelled either.)

  \<open>dispatchRequest\<close>, \<open>handleRequest\<close> and \<open>unloadWorkspace\<close> below are the \<open>async\<close>
  methods run from the call to the end with no other call in between; what a method
  awaits from a collaborator that is not part of these two files is an argument: whether
  a launch succeeds, whether a handler's \<open>unloadWorkspace\<close> succeeds, the value of
  \<open>Date.now()\<close>. The subsection on overlapping calls splits \<open>dispatchRequest\<close> at the
  \<open>await\<close> of \<open>launcher.launch\<close>, where the call is suspended and other calls run.
\<close>

text \<open>
  Modelled from the spec: the error codes of \<open>common/lsp_error_codes\<close>, which is not among
  the sources. The spec names three codes surfaced to callers: \<open>UnknownFileLanguage\<close>,
  \<open>LanguageServerNotInstalled\<close> and the generic \<open>UnknownErrorCode\<close>.
\<close>

datatype ErrorCode = UnknownErrorCode | UnknownFileLanguage | LanguageServerNotInstalled

text \<open>
  What a method can fail with: a \<open>ResponseError\<close> with a code, the \<open>TypeError\<close> of reading
  a property of \<open>undefined\<close>, of calling what is not a function or of destructuring
  \<open>undefined\<close>, an error thrown by \<open>fs.realpathSync\<close>, a rejected launch, a rejected
  \<open>unloadWorkspace\<close> of a handler, an error thrown by the install manager.
  \<open>IllTypedCast\<close> stands for the use of a \<open>languageServerHandlers\<close> value that the
  object has itself at the other type of its union; the source never does this, since
  \<open>builtinWorkspaceFolders\<close> is fixed and decides which of the two is stored.
\<close>

datatype error =
    ResponseError ErrorCode
  | TypeError
  | FsError
  | LaunchError
  | HandlerError
  | InstallManagerError
  | IllTypedCast

text \<open>
  Modelled from the spec: the status values of \<open>common/language_server\<close>, which is not
  among the sources; the install collaborator answers not-installed or ready, and the
  controller's \<open>status\<close> adds running.
\<close>

datatype LanguageServerStatus = NOT_INSTALLED | READY | RUNNING

record LanguageServerDefinition =
  name :: string
  def_languages :: "string list"
  def_builtinWorkspaceFolders :: bool

text \<open>
  Modelled from the spec: the launcher (\<open>language_server_launcher\<close>) is not among the
  sources. The controller reads its property \<open>running\<close> and calls \<open>launch\<close>, which either
  fails or returns a new Connection Proxy; after a successful launch the launcher is
  running. The new handler is a \<open>LanguageServerProxy\<close> as its constructor leaves it: what
  the launcher does to the proxy before it returns it (connecting, initializing) is not
  part of these files, and nothing below depends on it.
\<close>

record ILanguageServerLauncher =
  running :: bool

definition launch ::
  "bool \<Rightarrow> ILanguageServerLauncher \<Rightarrow> LanguageServerProxy list \<Rightarrow>
   (nat \<times> ILanguageServerLauncher \<times> LanguageServerProxy list) option" where
  "launch launchOk l heap =
     (if launchOk
      then Some (length heap, l\<lparr> running := True \<rparr>, heap @ [LanguageServerProxy_constructor])
      else None)"

text \<open>\<open>ILanguageServerHandler | LanguageServerHandlerMap\<close>, by reference.\<close>

datatype Handlers = Shared nat | PerWorkspace "(string \<times> nat) list"

record LanguageServerData =
  ls_definition :: LanguageServerDefinition
  builtinWorkspaceFolders :: bool
  maxWorkspace :: nat
  languages :: "string list"
  launcher :: ILanguageServerLauncher
  languageServerHandlers :: "Handlers option"

text \<open>
  The controller, and with it the two places outside of it to which its methods can
  write: \<open>findOrCreateHandler\<close> assigns \<open>languageServerHandlers\<close> to whatever object
  \<open>findLanguageServer\<close> returned, and for a language named like a property of
  \<open>Object.prototype\<close> that object is a method of \<open>Object.prototype\<close> or
  \<open>Object.prototype\<close> itself. \<open>prototypeHandlers\<close> is the property
  \<open>languageServerHandlers\<close> of \<open>Object.prototype\<close> (undefined until such a call), which
  every object without that property of its own inherits from then on;
  \<open>functionHandlers\<close> holds the property \<open>languageServerHandlers\<close> of those methods of
  \<open>Object.prototype\<close> that have been given one.
\<close>

record LanguageServerController =
  languageServers :: "LanguageServerData list"
  languageServerMap :: "(string \<times> nat) list"
  detach :: bool
  handlerObjects :: "LanguageServerProxy list"
  prototypeHandlers :: "(string \<times> nat) list option"
  functionHandlers :: "(string \<times> (string \<times> nat) list) list"

text \<open>
  The collaborators the controller calls: \<open>fs.realpathSync\<close> (\<open>None\<close> when it throws),
  the language detector (\<open>None\<close> when it yields no language) and the install manager's
  \<open>status\<close>. The install manager is not among the sources: what its \<open>status\<close> does when
  it is called with \<open>undefined\<close> instead of a definition is
  \<open>installManager_status_undefined\<close> (\<open>None\<close> when it throws).
\<close>

record Collaborators =
  realpathSync :: "string \<Rightarrow> string option"
  detectLanguage :: "string \<Rightarrow> string option"
  installManager_status :: "LanguageServerDefinition \<Rightarrow> LanguageServerStatus"
  installManager_status_undefined :: "LanguageServerStatus option"

text \<open>JavaScript truthiness of an optional string: defined and not empty.\<close>

definition truthy :: "string option \<Rightarrow> bool" where
  "truthy s = (case s of None \<Rightarrow> False | Some v \<Rightarrow> v \<noteq> [])"

text \<open>\<open>String.prototype.replace\<close> with a string pattern: the first occurrence only.\<close>

fun replace :: "string \<Rightarrow> string \<Rightarrow> string \<Rightarrow> string" where
  "replace pat rep [] = (if pat = [] then rep else [])"
| "replace pat rep (c # cs) =
     (if take (length pat) (c # cs) = pat then rep @ drop (length pat) (c # cs)
      else c # replace pat rep cs)"

text \<open>
  The constructor: one \<open>LanguageServerData\<close> per definition of the list \<open>LanguageServers\<close>
  (an argument here, as is \<open>options.maxWorkspace\<close> and the environment switch read into
  \<open>detach\<close>), then the \<open>reduce\<close> that maps every language and the definition's name to its
  object. (\<open>LanguageServers\<close> is a constant of the repository; none of its languages and
  names is taken to be \<open>__proto__\<close>, the one key whose assignment does not create a
  property.) \<open>Object.prototype\<close> is as the language defines it.
\<close>

fun languageServerMap_reduce ::
  "(string \<times> nat) list \<Rightarrow> (nat \<times> LanguageServerData) list \<Rightarrow> (string \<times> nat) list" where
  "languageServerMap_reduce m [] = m"
| "languageServerMap_reduce m ((i, ls) # rest) =
     languageServerMap_reduce
       (AList.update (name (ls_definition ls)) i
          (foldl (\<lambda>m' lang. AList.update lang i m') m (languages ls)))
       rest"

definition LanguageServerController_constructor ::
  "LanguageServerDefinition list \<Rightarrow> nat \<Rightarrow> bool \<Rightarrow> LanguageServerController" where
  "LanguageServerController_constructor LanguageServers options_maxWorkspace env_detach =
     (let lss = map (\<lambda>d. \<lparr> ls_definition = d,
                            builtinWorkspaceFolders = def_builtinWorkspaceFolders d,
                            maxWorkspace = options_maxWorkspace,
                            languages = def_languages d,
                            launcher = \<lparr> running = False \<rparr>,
                            languageServerHandlers = None \<rparr>) LanguageServers
      in \<lparr> languageServers = lss,
           languageServerMap = languageServerMap_reduce [] (zip [0..<length lss] lss),
           detach = env_detach,
           handlerObjects = [],
           prototypeHandlers = None,
           functionHandlers = [] \<rparr>)"

subsection \<open>Reading \<open>languageServerMap\<close>\<close>

text \<open>
  The properties of \<open>Object.prototype\<close> whose value is a function. The remaining one is
  the accessor \<open>__proto__\<close>, whose value on \<open>languageServerMap\<close> is \<open>Object.prototype\<close>.
\<close>

definition Object_prototype_methods :: "string list" where
  "Object_prototype_methods =
     [''constructor'', ''__defineGetter__'', ''__defineSetter__'', ''hasOwnProperty'',
      ''__lookupGetter__'', ''__lookupSetter__'', ''isPrototypeOf'', ''propertyIsEnumerable'',
      ''toString'', ''valueOf'', ''toLocaleString'']"

text \<open>
  What \<open>this.languageServerMap[lang]\<close> can be: a \<open>LanguageServerData\<close> of the controller
  (the map's own property), a method of \<open>Object.prototype\<close>, \<open>Object.prototype\<close> itself,
  or, once \<open>Object.prototype\<close> has the property \<open>languageServerHandlers\<close>, the handler map
  stored there. \<open>None\<close> is \<open>undefined\<close>.
\<close>

datatype LanguageServerRef =
    Entry nat
  | ObjectMethod string
  | ObjectPrototype
  | PrototypeHandlerMap

definition languageServerMap_get ::
  "LanguageServerController \<Rightarrow> string \<Rightarrow> LanguageServerRef option" where
  "languageServerMap_get c lang =
     (case map_of (languageServerMap c) lang of
        Some i \<Rightarrow> Some (Entry i)
      | None \<Rightarrow>
          (if lang \<in> set Object_prototype_methods then Some (ObjectMethod lang)
           else if lang = ''__proto__'' then Some ObjectPrototype
           else if lang = ''languageServerHandlers'' \<and> prototypeHandlers c \<noteq> None
           then Some PrototypeHandlerMap
           else None))"

text \<open>
  \<open>this.installManager.status(ls.definition)\<close>. Only a \<open>LanguageServerData\<close> has a
  \<open>definition\<close>; on the other objects the property is undefined.
\<close>

definition installManager_status_of ::
  "Collaborators \<Rightarrow> LanguageServerController \<Rightarrow> LanguageServerRef \<Rightarrow> LanguageServerStatus option" where
  "installManager_status_of env c ls =
     (case ls of
        Entry i \<Rightarrow> Some (installManager_status env (ls_definition (languageServers c ! i)))
      | _ \<Rightarrow> installManager_status_undefined env)"

text \<open>
  \<open>findLanguageServer(lang)\<close>; the result refers to the object found. Every object is
  truthy. With \<open>detach\<close> on, the install manager is not called.
\<close>

definition findLanguageServer ::
  "Collaborators \<Rightarrow> LanguageServerController \<Rightarrow> string \<Rightarrow> error + LanguageServerRef" where
  "findLanguageServer env c lang =
     (case languageServerMap_get c lang of
        Some ls \<Rightarrow>
          (if detach c then Inr ls
           else (case installManager_status_of env c ls of
                   None \<Rightarrow> Inl InstallManagerError
                 | Some st \<Rightarrow>
                     (if st \<noteq> READY then Inl (ResponseError LanguageServerNotInstalled)
                      else Inr ls)))
      | None \<Rightarrow> Inl (ResponseError UnknownFileLanguage))"

text \<open>
  \<open>status(lang)\<close>: \<open>ls.definition\<close> of a language for which the map yields \<open>undefined\<close>
  is a property of \<open>undefined\<close>. For an object that is not a \<open>LanguageServerData\<close>,
  \<open>ls.launcher\<close> is undefined and \<open>ls.launcher.running\<close> throws.
\<close>

definition status ::
  "Collaborators \<Rightarrow> LanguageServerController \<Rightarrow> string \<Rightarrow> error + LanguageServerStatus" where
  "status env c lang =
     (case languageServerMap_get c lang of
        None \<Rightarrow> Inl TypeError
      | Some ls \<Rightarrow>
          (case installManager_status_of env c ls of
             None \<Rightarrow> Inl InstallManagerError
           | Some st \<Rightarrow>
               (if st = READY
                then (case ls of
                        Entry i \<Rightarrow>
                          (if running (launcher (languageServers c ! i)) then Inr RUNNING
                           else Inr st)
                      | _ \<Rightarrow> Inl TypeError)
                else Inr st)))"

definition supportLanguage :: "LanguageServerController \<Rightarrow> string \<Rightarrow> bool" where
  "supportLanguage c lang = (languageServerMap_get c lang \<noteq> None)"

subsection \<open>\<open>findOrCreateHandler\<close>\<close>

text \<open>
  \<open>h.lastAccess! < oldestHandler.lastAccess!\<close>: a comparison with \<open>undefined\<close> is false.
\<close>

definition js_less :: "int option \<Rightarrow> int option \<Rightarrow> bool" where
  "js_less a b = (case (a, b) of (Some x, Some y) \<Rightarrow> x < y | _ \<Rightarrow> False)"

text \<open>
  The \<open>forEach\<close> of the eviction branch, with the pair
  \<open>(oldestWorkspace, oldestHandler)\<close> as its state.
\<close>

fun oldest_forEach ::
  "LanguageServerProxy list \<Rightarrow> string \<times> nat \<Rightarrow> (string \<times> nat) list \<Rightarrow> string \<times> nat" where
  "oldest_forEach heap oldest [] = oldest"
| "oldest_forEach heap oldest (p # ps) =
     (if js_less (lastAccess (heap ! snd p)) (lastAccess (heap ! snd oldest))
      then oldest_forEach heap p ps
      else oldest_forEach heap oldest ps)"

text \<open>
  \<open>findOrCreateHandler(languageServer, request)\<close> on one entry and the store of handler
  objects. An undefined \<open>languageServerHandlers\<close> is replaced by the empty map before
  anything else. In the eviction branch \<open>handlerArray[0]\<close> of an empty array is
  \<open>undefined\<close> and its destructuring throws.
\<close>

definition findOrCreateHandler ::
  "Collaborators \<Rightarrow> bool \<Rightarrow> LanguageServerData \<Rightarrow> LspRequest \<Rightarrow> LanguageServerProxy list \<Rightarrow>
   (error + nat) \<times> LanguageServerData \<times> LanguageServerProxy list" where
  "findOrCreateHandler env launchOk languageServer request heap =
     (case languageServerHandlers languageServer of
        Some (Shared h) \<Rightarrow> (Inl IllTypedCast, languageServer, heap)
      | other \<Rightarrow>
          (let handlers = (case other of Some (PerWorkspace m) \<Rightarrow> m | _ \<Rightarrow> []);
               ls = languageServer\<lparr> languageServerHandlers := Some (PerWorkspace handlers) \<rparr>
           in case workspacePath request of
                None \<Rightarrow> (Inl (ResponseError UnknownErrorCode), ls, heap)
              | Some request_workspacePath \<Rightarrow>
                  (if request_workspacePath = []
                   then (Inl (ResponseError UnknownErrorCode), ls, heap)
                   else
                     (case realpathSync env request_workspacePath of
                        None \<Rightarrow> (Inl FsError, ls, heap)
                      | Some realPath \<Rightarrow>
                          (case map_of handlers realPath of
                             Some handler \<Rightarrow> (Inr handler, ls, heap)
                           | None \<Rightarrow>
                               (if length handlers < maxWorkspace ls
                                then (case launch launchOk (launcher ls) heap of
                                        None \<Rightarrow> (Inl LaunchError, ls, heap)
                                      | Some (handler, l', heap') \<Rightarrow>
                                          (Inr handler,
                                           ls\<lparr> launcher := l',
                                               languageServerHandlers :=
                                                 Some (PerWorkspace
                                                   (AList.update realPath handler handlers)) \<rparr>,
                                           heap'))
                                else (case handlers of
                                        [] \<Rightarrow> (Inl TypeError, ls, heap)
                                      | first # _ \<Rightarrow>
                                          (case oldest_forEach heap first handlers of
                                             (oldestWorkspace, oldestHandler) \<Rightarrow>
                                               (Inr oldestHandler,
                                                ls\<lparr> languageServerHandlers :=
                                                      Some (PerWorkspace
                                                        (AList.update request_workspacePath oldestHandler
                                                           (AList.delete oldestWorkspace handlers))) \<rparr>,
                                                heap)))))))))"

text \<open>
  The live handlers of an entry in per-workspace mode are the entries of its handler map.
\<close>

definition liveHandlers :: "LanguageServerData \<Rightarrow> (string \<times> nat) list" where
  "liveHandlers ls = (case languageServerHandlers ls of Some (PerWorkspace m) \<Rightarrow> m | _ \<Rightarrow> [])"

subsection \<open>The object a request is dispatched to\<close>

text \<open>
  An object that is used as a \<open>LanguageServerData\<close> and is none: \<open>definition\<close>,
  \<open>builtinWorkspaceFolders\<close>, \<open>maxWorkspace\<close>, \<open>languages\<close> and \<open>launcher\<close> are undefined.
  Of these, the code that is reached with such an object reads two:
  \<open>builtinWorkspaceFolders\<close> in a condition, where \<open>undefined\<close> counts as false, and
  \<open>maxWorkspace\<close> in \<open>handlerArray.length < maxWorkspace\<close>, which is false for
  \<open>undefined\<close> as it is for 0. So the launch of \<open>findOrCreateHandler\<close>, the only use of
  \<open>launcher\<close> and \<open>definition\<close> there, is not reached.
\<close>

definition inherited_object :: "Handlers option \<Rightarrow> LanguageServerData" where
  "inherited_object hs =
     \<lparr> ls_definition = \<lparr> name = [], def_languages = [], def_builtinWorkspaceFolders = False \<rparr>,
       builtinWorkspaceFolders = False, maxWorkspace = 0, languages = [],
       launcher = \<lparr> running = False \<rparr>, languageServerHandlers = hs \<rparr>"

text \<open>
  The object a reference stands for, with the properties it has itself, and the
  assignment of new values to these properties.
\<close>

definition languageServer_at ::
  "LanguageServerController \<Rightarrow> LanguageServerRef \<Rightarrow> LanguageServerData" where
  "languageServer_at c ls =
     (case ls of
        Entry i \<Rightarrow> languageServers c ! i
      | ObjectMethod f \<Rightarrow> inherited_object (map_option PerWorkspace (map_of (functionHandlers c) f))
      | ObjectPrototype \<Rightarrow> inherited_object (map_option PerWorkspace (prototypeHandlers c))
      | PrototypeHandlerMap \<Rightarrow> inherited_object None)"

definition languageServer_assign ::
  "LanguageServerController \<Rightarrow> LanguageServerRef \<Rightarrow> LanguageServerData \<Rightarrow> LanguageServerController" where
  "languageServer_assign c ls v =
     (case ls of
        Entry i \<Rightarrow> c\<lparr> languageServers := (languageServers c)[i := v] \<rparr>
      | ObjectMethod f \<Rightarrow>
          (case languageServerHandlers v of
             Some (PerWorkspace m) \<Rightarrow> c\<lparr> functionHandlers := AList.update f m (functionHandlers c) \<rparr>
           | _ \<Rightarrow> c)
      | ObjectPrototype \<Rightarrow>
          (case languageServerHandlers v of
             Some (PerWorkspace m) \<Rightarrow> c\<lparr> prototypeHandlers := Some m \<rparr>
           | _ \<Rightarrow> c)
      | PrototypeHandlerMap \<Rightarrow> c)"

text \<open>
  The read of \<open>languageServer.languageServerHandlers\<close> goes through the prototype chain:
  an object that does not have the property yields the one of \<open>Object.prototype\<close>, if
  there is one. \<open>handlers_view\<close> is the object as \<open>findOrCreateHandler\<close> reads it.
  The handler map is held by reference, so what \<open>findOrCreateHandler\<close> does to an
  inherited map is done to the map of \<open>Object.prototype\<close>, and the object still has no
  \<open>languageServerHandlers\<close> of its own: \<open>handlers_store\<close> puts the object and the map
  back where they are held.
\<close>

definition inherits_handlers :: "LanguageServerController \<Rightarrow> LanguageServerRef \<Rightarrow> bool" where
  "inherits_handlers c ls =
     (languageServerHandlers (languageServer_at c ls) = None \<and> prototypeHandlers c \<noteq> None)"

definition handlers_view ::
  "LanguageServerController \<Rightarrow> LanguageServerRef \<Rightarrow> LanguageServerData" where
  "handlers_view c ls =
     (if inherits_handlers c ls
      then (languageServer_at c ls)
             \<lparr> languageServerHandlers := map_option PerWorkspace (prototypeHandlers c) \<rparr>
      else languageServer_at c ls)"

definition handlers_store ::
  "LanguageServerController \<Rightarrow> LanguageServerRef \<Rightarrow> LanguageServerData \<Rightarrow> LanguageServerController" where
  "handlers_store c ls v =
     (if inherits_handlers c ls
      then (languageServer_assign c ls (v\<lparr> languageServerHandlers := None \<rparr>))
             \<lparr> prototypeHandlers := Some (liveHandlers v) \<rparr>
      else languageServer_assign c ls v)"

subsection \<open>\<open>dispatchRequest\<close>, \<open>handleRequest\<close> and \<open>unloadWorkspace\<close>\<close>

text \<open>
  \<open>handler.handleRequest(request)\<close> on a handler of the store: the store with the
  handler's new state, and the promise the call returns.
\<close>

definition handler_handleRequest ::
  "nat \<Rightarrow> LspRequest \<Rightarrow> LanguageServerProxy list \<Rightarrow> nat \<times> LanguageServerProxy list" where
  "handler_handleRequest handler request heap =
     (case proxy_handleRequest request (heap ! handler) of
        (promise, p') \<Rightarrow> (promise, heap[handler := p']))"

text \<open>
  \<open>dispatchRequest(lang, request)\<close>. The value of a successful call is the handler the
  request went to and the promise that handler returned. \<open>now\<close> is \<open>Date.now()\<close>. In the
  built-in branch a \<open>languageServerHandlers\<close> that is undefined or a handler map has no
  method \<open>handleRequest\<close>.
\<close>

definition dispatchRequest ::
  "Collaborators \<Rightarrow> int \<Rightarrow> bool \<Rightarrow> string option \<Rightarrow> LspRequest \<Rightarrow> LanguageServerController \<Rightarrow>
   (error + nat \<times> nat) \<times> LanguageServerController" where
  "dispatchRequest env now launchOk lang request c =
     (case lang of
        None \<Rightarrow> (Inl (ResponseError UnknownFileLanguage), c)
      | Some l \<Rightarrow>
          (if l = [] then (Inl (ResponseError UnknownFileLanguage), c)
           else
             (case findLanguageServer env c l of
                Inl e \<Rightarrow> (Inl e, c)
              | Inr found \<Rightarrow>
                  (let ls = languageServer_at c found in
                   if builtinWorkspaceFolders ls
                   then
                     (case (if \<not> running (launcher ls)
                            then (case launch launchOk (launcher ls) (handlerObjects c) of
                                    None \<Rightarrow> None
                                  | Some (handler, l', heap') \<Rightarrow>
                                      Some (ls\<lparr> launcher := l',
                                                languageServerHandlers := Some (Shared handler) \<rparr>,
                                            heap'))
                            else Some (ls, handlerObjects c)) of
                        None \<Rightarrow> (Inl LaunchError, c)
                      | Some (ls1, heap1) \<Rightarrow>
                          (let c1 = (languageServer_assign c found ls1)\<lparr> handlerObjects := heap1 \<rparr>
                           in case languageServerHandlers ls1 of
                                Some (Shared handler) \<Rightarrow>
                                  (case handler_handleRequest handler request heap1 of
                                     (promise, heap2) \<Rightarrow>
                                       (Inr (handler, promise), c1\<lparr> handlerObjects := heap2 \<rparr>))
                              | _ \<Rightarrow> (Inl TypeError, c1)))
                   else
                     (case findOrCreateHandler env launchOk (handlers_view c found) request
                             (handlerObjects c) of
                        (Inl e, ls1, heap1) \<Rightarrow>
                          (Inl e, (handlers_store c found ls1)\<lparr> handlerObjects := heap1 \<rparr>)
                      | (Inr handler, ls1, heap1) \<Rightarrow>
                          (let heap2 = heap1[handler := (heap1 ! handler)\<lparr> lastAccess := Some now \<rparr>]
                           in case handler_handleRequest handler request heap2 of
                                (promise, heap3) \<Rightarrow>
                                  (Inr (handler, promise),
                                   (handlers_store c found ls1)\<lparr> handlerObjects := heap3 \<rparr>)))))))"

text \<open>\<open>handleRequest(request)\<close> of the controller.\<close>

definition handleRequest ::
  "Collaborators \<Rightarrow> int \<Rightarrow> bool \<Rightarrow> LspRequest \<Rightarrow> LanguageServerController \<Rightarrow>
   (error + nat \<times> nat) \<times> LanguageServerController" where
  "handleRequest env now launchOk request c =
     (case resolvedFilePath request of
        None \<Rightarrow> (Inl (ResponseError UnknownErrorCode), c)
      | Some file \<Rightarrow>
          (if file = [] then (Inl (ResponseError UnknownErrorCode), c)
           else dispatchRequest env now launchOk
                  (detectLanguage env (replace ''file://'' [] file)) request c))"

text \<open>
  \<open>unloadWorkspace(workspaceDir)\<close>: the loop over the language servers; a rejected
  \<open>await\<close> or a throwing \<open>realpathSync\<close> ends it and leaves the remaining entries as they
  are. Which concrete class a handler has is the launcher's choice (the base class below
  always rejects), so the outcome of \<open>handler.unloadWorkspace\<close> is the argument
  \<open>unloadOk\<close>, per handler. The loop carries the handler map of \<open>Object.prototype\<close>,
  which an entry without \<open>languageServerHandlers\<close> of its own reads; on an entry in
  built-in mode that map is used as a handler, and it has no method \<open>unloadWorkspace\<close>.
\<close>

fun unloadWorkspace_loop ::
  "Collaborators \<Rightarrow> (nat \<Rightarrow> bool) \<Rightarrow> string \<Rightarrow> (string \<times> nat) list option \<Rightarrow>
   LanguageServerData list \<Rightarrow>
   error option \<times> LanguageServerData list \<times> (string \<times> nat) list option" where
  "unloadWorkspace_loop env unloadOk workspaceDir inherited [] = (None, [], inherited)"
| "unloadWorkspace_loop env unloadOk workspaceDir inherited (languageServer # rest) =
     (case languageServerHandlers languageServer of
        None \<Rightarrow>
          (case inherited of
             None \<Rightarrow>
               (case unloadWorkspace_loop env unloadOk workspaceDir inherited rest of
                  (r, rest', inherited') \<Rightarrow> (r, languageServer # rest', inherited'))
           | Some handlers \<Rightarrow>
               (if builtinWorkspaceFolders languageServer
                then (Some TypeError, languageServer # rest, inherited)
                else
                  (case realpathSync env workspaceDir of
                     None \<Rightarrow> (Some FsError, languageServer # rest, inherited)
                   | Some realPath \<Rightarrow>
                       (case map_of handlers realPath of
                          None \<Rightarrow>
                            (case unloadWorkspace_loop env unloadOk workspaceDir inherited rest of
                               (r, rest', inherited') \<Rightarrow> (r, languageServer # rest', inherited'))
                        | Some handler \<Rightarrow>
                            (if unloadOk handler
                             then (case unloadWorkspace_loop env unloadOk workspaceDir
                                          (Some (AList.delete realPath handlers)) rest of
                                     (r, rest', inherited') \<Rightarrow>
                                       (r, languageServer # rest', inherited'))
                             else (Some HandlerError, languageServer # rest, inherited))))))
      | Some hs \<Rightarrow>
          (if builtinWorkspaceFolders languageServer
           then (case hs of
                   Shared handler \<Rightarrow>
                     (if unloadOk handler
                      then (case unloadWorkspace_loop env unloadOk workspaceDir inherited rest of
                              (r, rest', inherited') \<Rightarrow> (r, languageServer # rest', inherited'))
                      else (Some HandlerError, languageServer # rest, inherited))
                 | PerWorkspace m \<Rightarrow> (Some IllTypedCast, languageServer # rest, inherited))
           else (case hs of
                   Shared handler \<Rightarrow> (Some IllTypedCast, languageServer # rest, inherited)
                 | PerWorkspace handlers \<Rightarrow>
                     (case realpathSync env workspaceDir of
                        None \<Rightarrow> (Some FsError, languageServer # rest, inherited)
                      | Some realPath \<Rightarrow>
                          (case map_of handlers realPath of
                             None \<Rightarrow>
                               (case unloadWorkspace_loop env unloadOk workspaceDir inherited rest of
                                  (r, rest', inherited') \<Rightarrow>
                                    (r, languageServer # rest', inherited'))
                           | Some handler \<Rightarrow>
                               (if unloadOk handler
                                then (case unloadWorkspace_loop env unloadOk workspaceDir inherited
                                             rest of
                                        (r, rest', inherited') \<Rightarrow>
                                          (r, languageServer\<lparr> languageServerHandlers :=
                                                Some (PerWorkspace (AList.delete realPath handlers)) \<rparr>
                                              # rest',
                                           inherited'))
                                else (Some HandlerError, languageServer # rest, inherited)))))))"

definition unloadWorkspace ::
  "Collaborators \<Rightarrow> (nat \<Rightarrow> bool) \<Rightarrow> string \<Rightarrow> LanguageServerController \<Rightarrow>
   error option \<times> LanguageServerController" where
  "unloadWorkspace env unloadOk workspaceDir c =
     (case unloadWorkspace_loop env unloadOk workspaceDir (prototypeHandlers c)
             (languageServers c) of
        (r, lss, inherited) \<Rightarrow> (r, c\<lparr> languageServers := lss, prototypeHandlers := inherited \<rparr>))"

text \<open>\<open>unloadWorkspace\<close> of the base class \<open>LanguageServerProxy\<close>: always rejected.\<close>

definition proxy_unloadWorkspace :: "string \<Rightarrow> LanguageServerProxy \<Rightarrow> error option" where
  "proxy_unloadWorkspace workspaceDir p = Some HandlerError"

subsection \<open>Overlapping calls\<close>

text \<open>
  An \<open>async\<close> function runs until it awaits a promise that is not settled; then its
  caller goes on, and the rest of the function runs when the promise settles.
  \<open>dispatchRequest\<close> awaits \<open>launcher.launch(...)\<close> in two places: in its built-in branch
  (line 92) and, through \<open>findOrCreateHandler\<close>, in the insertion branch (line 209).
  The launch starts a language server; until it settles, other calls of
  \<open>dispatchRequest\<close> run. (The \<open>await\<close> of the promise of \<open>findOrCreateHandler\<close> itself,
  when that call did not launch, is taken to continue at once.)

  A suspended call holds the object \<open>findLanguageServer\<close> returned and, in
  \<open>findOrCreateHandler\<close>, the canonical path and the handler map, the latter by
  reference: when the call goes on, the map is read where it is held, with what other
  calls have done to it in the meantime. (Where it is held does not change while the call
  is suspended: an object that has \<open>languageServerHandlers\<close> keeps it, and one that
  inherits it is not assigned one.)
\<close>

datatype Suspended =
    AwaitLaunch LanguageServerRef
  | AwaitWorkspaceLaunch LanguageServerRef string

text \<open>
  \<open>findOrCreateHandler\<close> up to the \<open>await\<close> of line 209: either the call has ended, with
  an error or a handler, or it is suspended and holds \<open>realPath\<close>.
\<close>

definition findOrCreateHandler_until_launch ::
  "Collaborators \<Rightarrow> LanguageServerData \<Rightarrow> LspRequest \<Rightarrow> LanguageServerProxy list \<Rightarrow>
   ((error + nat) + string) \<times> LanguageServerData" where
  "findOrCreateHandler_until_launch env languageServer request heap =
     (case languageServerHandlers languageServer of
        Some (Shared h) \<Rightarrow> (Inl (Inl IllTypedCast), languageServer)
      | other \<Rightarrow>
          (let handlers = (case other of Some (PerWorkspace m) \<Rightarrow> m | _ \<Rightarrow> []);
               ls = languageServer\<lparr> languageServerHandlers := Some (PerWorkspace handlers) \<rparr>
           in case workspacePath request of
                None \<Rightarrow> (Inl (Inl (ResponseError UnknownErrorCode)), ls)
              | Some request_workspacePath \<Rightarrow>
                  (if request_workspacePath = []
                   then (Inl (Inl (ResponseError UnknownErrorCode)), ls)
                   else
                     (case realpathSync env request_workspacePath of
                        None \<Rightarrow> (Inl (Inl FsError), ls)
                      | Some realPath \<Rightarrow>
                          (case map_of handlers realPath of
                             Some handler \<Rightarrow> (Inl (Inr handler), ls)
                           | None \<Rightarrow>
                               (if length handlers < maxWorkspace ls
                                then (Inr realPath, ls)
                                else (case handlers of
                                        [] \<Rightarrow> (Inl (Inl TypeError), ls)
                                      | first # _ \<Rightarrow>
                                          (case oldest_forEach heap first handlers of
                                             (oldestWorkspace, oldestHandler) \<Rightarrow>
                                               (Inl (Inr oldestHandler),
                                                ls\<lparr> languageServerHandlers :=
                                                      Some (PerWorkspace
                                                        (AList.update request_workspacePath oldestHandler
                                                           (AList.delete oldestWorkspace handlers))) \<rparr>)))))))))"

text \<open>
  The rest of \<open>findOrCreateHandler\<close>, from the moment the launch settles: a rejected
  launch is thrown on; otherwise \<open>handlers[realPath] = handler\<close> on the map as it is
  now.
\<close>

definition findOrCreateHandler_after_launch ::
  "bool \<Rightarrow> string \<Rightarrow> LanguageServerData \<Rightarrow> LanguageServerProxy list \<Rightarrow>
   (error + nat) \<times> LanguageServerData \<times> LanguageServerProxy list" where
  "findOrCreateHandler_after_launch launchOk realPath ls heap =
     (case launch launchOk (launcher ls) heap of
        None \<Rightarrow> (Inl LaunchError, ls, heap)
      | Some (handler, l', heap') \<Rightarrow>
          (Inr handler,
           ls\<lparr> launcher := l',
               languageServerHandlers :=
                 Some (PerWorkspace (AList.update realPath handler (liveHandlers ls))) \<rparr>,
           heap'))"

text \<open>
  \<open>dispatchRequest\<close> up to the \<open>await\<close> of a launch: the call has ended (\<open>Inl\<close>, with its
  outcome) or is suspended.
\<close>

definition dispatchRequest_until_launch ::
  "Collaborators \<Rightarrow> int \<Rightarrow> string option \<Rightarrow> LspRequest \<Rightarrow> LanguageServerController \<Rightarrow>
   ((error + nat \<times> nat) + Suspended) \<times> LanguageServerController" where
  "dispatchRequest_until_launch env now lang request c =
     (case lang of
        None \<Rightarrow> (Inl (Inl (ResponseError UnknownFileLanguage)), c)
      | Some l \<Rightarrow>
          (if l = [] then (Inl (Inl (ResponseError UnknownFileLanguage)), c)
           else
             (case findLanguageServer env c l of
                Inl e \<Rightarrow> (Inl (Inl e), c)
              | Inr found \<Rightarrow>
                  (let ls = languageServer_at c found in
                   if builtinWorkspaceFolders ls
                   then
                     (if \<not> running (launcher ls) then (Inr (AwaitLaunch found), c)
                      else
                        (let c1 = languageServer_assign c found ls
                         in case languageServerHandlers ls of
                              Some (Shared handler) \<Rightarrow>
                                (case handler_handleRequest handler request (handlerObjects c) of
                                   (promise, heap2) \<Rightarrow>
                                     (Inl (Inr (handler, promise)), c1\<lparr> handlerObjects := heap2 \<rparr>))
                            | _ \<Rightarrow> (Inl (Inl TypeError), c1)))
                   else
                     (case findOrCreateHandler_until_launch env (handlers_view c found) request
                             (handlerObjects c) of
                        (Inl (Inl e), ls1) \<Rightarrow> (Inl (Inl e), handlers_store c found ls1)
                      | (Inl (Inr handler), ls1) \<Rightarrow>
                          (let heap1 = handlerObjects c;
                               heap2 = heap1[handler := (heap1 ! handler)\<lparr> lastAccess := Some now \<rparr>]
                           in case handler_handleRequest handler request heap2 of
                                (promise, heap3) \<Rightarrow>
                                  (Inl (Inr (handler, promise)),
                                   (handlers_store c found ls1)\<lparr> handlerObjects := heap3 \<rparr>))
                      | (Inr realPath, ls1) \<Rightarrow>
                          (Inr (AwaitWorkspaceLaunch found realPath),
                           handlers_store c found ls1))))))"

text \<open>
  The rest of a suspended \<open>dispatchRequest\<close>, run when its launch settles, on the
  controller as it is then.
\<close>

definition dispatchRequest_after_launch ::
  "int \<Rightarrow> bool \<Rightarrow> Suspended \<Rightarrow> LspRequest \<Rightarrow> LanguageServerController \<Rightarrow>
   (error + nat \<times> nat) \<times> LanguageServerController" where
  "dispatchRequest_after_launch now launchOk suspended_call request c =
     (case suspended_call of
        AwaitLaunch found \<Rightarrow>
          (let ls = languageServer_at c found
           in case launch launchOk (launcher ls) (handlerObjects c) of
                None \<Rightarrow> (Inl LaunchError, c)
              | Some (handler, l', heap1) \<Rightarrow>
                  (let c1 = (languageServer_assign c found
                               (ls\<lparr> launcher := l',
                                    languageServerHandlers := Some (Shared handler) \<rparr>))
                            \<lparr> handlerObjects := heap1 \<rparr>
                   in case handler_handleRequest handler request heap1 of
                        (promise, heap2) \<Rightarrow>
                          (Inr (handler, promise), c1\<lparr> handlerObjects := heap2 \<rparr>)))
      | AwaitWorkspaceLaunch found realPath \<Rightarrow>
          (case findOrCreateHandler_after_launch launchOk realPath (handlers_view c found)
                  (handlerObjects c) of
             (Inl e, ls1, heap1) \<Rightarrow>
               (Inl e, (handlers_store c found ls1)\<lparr> handlerObjects := heap1 \<rparr>)
           | (Inr handler, ls1, heap1) \<Rightarrow>
               (let heap2 = heap1[handler := (heap1 ! handler)\<lparr> lastAccess := Some now \<rparr>]
                in case handler_handleRequest handler request heap2 of
                     (promise, heap3) \<Rightarrow>
                       (Inr (handler, promise),
                        (handlers_store c found ls1)\<lparr> handlerObjects := heap3 \<rparr>))))"

text \<open>
  An execution of the controller with calls that overlap: the controller and the calls
  that are suspended, oldest first. An event is a call of \<open>dispatchRequest\<close>, which runs
  until it ends or is suspended, or the settling of the launch that the \<open>k\<close>-th suspended
  call awaits, after which that call runs to its end.
\<close>

datatype Event =
    Call "string option" LspRequest int
  | LaunchSettles nat bool int

record Execution =
  controller :: LanguageServerController
  suspended :: "(Suspended \<times> LspRequest) list"

fun event :: "Collaborators \<Rightarrow> Event \<Rightarrow> Execution \<Rightarrow> Execution" where
  "event env (Call lang request now) x =
     (case dispatchRequest_until_launch env now lang request (controller x) of
        (Inl r, c1) \<Rightarrow> x\<lparr> controller := c1 \<rparr>
      | (Inr s, c1) \<Rightarrow> \<lparr> controller = c1, suspended = suspended x @ [(s, request)] \<rparr>)"
| "event env (LaunchSettles k launchOk now) x =
     (if k < length (suspended x)
      then (case suspended x ! k of
              (s, request) \<Rightarrow>
                \<lparr> controller = snd (dispatchRequest_after_launch now launchOk s request (controller x)),
                  suspended = take k (suspended x) @ drop (Suc k) (suspended x) \<rparr>)
      else x)"

fun events :: "Collaborators \<Rightarrow> Event list \<Rightarrow> Execution \<Rightarrow> Execution" where
  "events env [] x = x"
| "events env (e # es) x = events env es (event env e x)"

subsection \<open>Sequences of calls that do not overlap\<close>

text \<open>
  The public operations on the handler pools, each with what it takes from outside. In
  a \<open>run\<close> every call has ended when the next one is made, as when the caller awaits
  each call.
\<close>

datatype Operation =
    HandleRequest LspRequest int bool
  | DispatchRequest "string option" LspRequest int bool
  | UnloadWorkspace string "nat \<Rightarrow> bool"

fun step :: "Collaborators \<Rightarrow> Operation \<Rightarrow> LanguageServerController \<Rightarrow> LanguageServerController" where
  "step env (HandleRequest request now launchOk) c = snd (handleRequest env now launchOk request c)"
| "step env (DispatchRequest lang request now launchOk) c =
     snd (dispatchRequest env now launchOk lang request c)"
| "step env (UnloadWorkspace workspaceDir unloadOk) c =
     snd (unloadWorkspace env unloadOk workspaceDir c)"

fun run :: "Collaborators \<Rightarrow> Operation list \<Rightarrow> LanguageServerController \<Rightarrow> LanguageServerController" where
  "run env [] c = c"
| "run env (operation # ops) c = run env ops (step env operation c)"

subsection \<open>Invariants\<close>

definition pool_bounded :: "LanguageServerData \<Rightarrow> bool" where
  "pool_bounded ls =
     (distinct (map fst (liveHandlers ls)) \<and> length (liveHandlers ls) \<le> maxWorkspace ls)"

text \<open>
  An entry whose \<open>languageServerHandlers\<close> is not a shared handler: the only entries
  \<open>findOrCreateHandler\<close> is called on.
\<close>

definition unshared :: "LanguageServerData \<Rightarrow> bool" where
  "unshared ls = (\<forall>h. languageServerHandlers ls \<noteq> Some (Shared h))"

definition all_bounded :: "LanguageServerController \<Rightarrow> bool" where
  "all_bounded c = (\<forall>ls \<in> set (languageServers c). pool_bounded ls)"

text \<open>
  References do not dangle and the union type is used at the right alternative: the map
  of languages refers to existing entries, an entry in built-in mode holds a shared
  handler and an entry in per-workspace mode a handler map, and every handler referred to
  is in the store. The handler map of \<open>Object.prototype\<close>, if there is one, refers to
  handlers of the store as well, and the handler maps that methods of \<open>Object.prototype\<close>
  have been given are empty.
\<close>

definition entry_ok :: "nat \<Rightarrow> LanguageServerData \<Rightarrow> bool" where
  "entry_ok n ls =
     (case languageServerHandlers ls of
        None \<Rightarrow> True
      | Some (Shared h) \<Rightarrow> builtinWorkspaceFolders ls \<and> h < n
      | Some (PerWorkspace m) \<Rightarrow> \<not> builtinWorkspaceFolders ls \<and> (\<forall>h \<in> snd ` set m. h < n))"

definition well_formed :: "LanguageServerController \<Rightarrow> bool" where
  "well_formed c =
     ((\<forall>i \<in> snd ` set (languageServerMap c). i < length (languageServers c)) \<and>
      (\<forall>ls \<in> set (languageServers c). entry_ok (length (handlerObjects c)) ls) \<and>
      (\<forall>m. prototypeHandlers c = Some m \<longrightarrow>
         (\<forall>h \<in> snd ` set m. h < length (handlerObjects c))) \<and>
      (\<forall>m \<in> snd ` set (functionHandlers c). m = []))"

text \<open>
  A handler of the store that has been given a \<open>lastAccess\<close>, and the controllers all of
  whose pooled handlers have one, in the handler maps of the entries and in the one of
  \<open>Object.prototype\<close>.
\<close>

definition accessed :: "LanguageServerProxy list \<Rightarrow> nat \<Rightarrow> bool" where
  "accessed heap h = (h < length heap \<and> lastAccess (heap ! h) \<noteq> None)"

definition all_accessed :: "LanguageServerController \<Rightarrow> bool" where
  "all_accessed c =
     ((\<forall>ls \<in> set (languageServers c). \<forall>h \<in> snd ` set (liveHandlers ls).
         accessed (handlerObjects c) h) \<and>
      (\<forall>m. prototypeHandlers c = Some m \<longrightarrow>
         (\<forall>h \<in> snd ` set m. accessed (handlerObjects c) h)))"

section \<open>Concrete proxies, controllers and requests\<close>

text \<open>
  The objects at which the statements below are instantiated and evaluated: a run of three
  calls on a proxy, a proxy with a client connection, a controller with one definition in
  per-workspace mode, a file system in which \<open>/ws/link\<close> is a symbolic link to
  \<open>/ws/real\<close>, and requests for workspaces.
\<close>

definition three_calls :: "(string \<times> string \<times> bool option) list" where
  "three_calls = [(''textDocument/hover'', ''{}'', None),
                  (''textDocument/didOpen'', ''{}'', Some True),
                  (''textDocument/definition'', ''{}'', Some False)]"

definition connected_proxy :: LanguageServerProxy where
  "connected_proxy = socket_on_connect (snd (connect LanguageServerProxy_constructor))"

definition java_definition :: LanguageServerDefinition where
  "java_definition =
     \<lparr> name = ''Java'', def_languages = [''java''], def_builtinWorkspaceFolders = False \<rparr>"

definition symlink_env :: Collaborators where
  "symlink_env =
     \<lparr> realpathSync = (\<lambda>p. if p = ''/ws/link'' then Some ''/ws/real'' else Some p),
       detectLanguage = (\<lambda>f. if f = ''/ws/a/Main.java'' then Some ''java'' else None),
       installManager_status = (\<lambda>d. READY),
       installManager_status_undefined = None \<rparr>"

definition not_installed_env :: Collaborators where
  "not_installed_env = symlink_env\<lparr> installManager_status := (\<lambda>d. NOT_INSTALLED) \<rparr>"

definition ruby_env :: Collaborators where
  "ruby_env =
     symlink_env\<lparr> detectLanguage := (\<lambda>f. if f = ''/ws/a/x.rb'' then Some ''ruby'' else None) \<rparr>"

definition workspace_request :: "string \<Rightarrow> LspRequest" where
  "workspace_request ws =
     \<lparr> req_method = ''textDocument/hover'', req_params = [], isNotification = None,
       resolvedFilePath = None, workspacePath = Some ws \<rparr>"

definition file_request :: "string option \<Rightarrow> LspRequest" where
  "file_request f =
     \<lparr> req_method = ''textDocument/hover'', req_params = [], isNotification = None,
       resolvedFilePath = f, workspacePath = Some ''/ws/a'' \<rparr>"

definition java_controller :: "nat \<Rightarrow> LanguageServerController" where
  "java_controller n = LanguageServerController_constructor [java_definition] n False"

definition detached_controller :: LanguageServerController where
  "detached_controller = LanguageServerController_constructor [java_definition] 2 True"

definition three_dispatches :: "Operation list" where
  "three_dispatches =
     [DispatchRequest (Some ''java'') (workspace_request ''/ws/a'') 1 True,
      DispatchRequest (Some ''java'') (workspace_request ''/ws/b'') 2 True,
      DispatchRequest (Some ''java'') (workspace_request ''/ws/c'') 3 True]"

definition two_workspaces :: "Operation list" where
  "two_workspaces =
     [DispatchRequest (Some ''java'') (workspace_request ''/ws/a'') 1 True,
      DispatchRequest (Some ''java'') (workspace_request ''/ws/b'') 2 True]"

definition link_request :: "int \<Rightarrow> Operation" where
  "link_request now = DispatchRequest (Some ''java'') (workspace_request ''/ws/link'') now True"

text \<open>
  An entry at capacity 3 whose second and third handler were both last used at time 3,
  the first at time 5.
\<close>

definition three_proxies :: "LanguageServerProxy list" where
  "three_proxies =
     [LanguageServerProxy_constructor\<lparr> lastAccess := Some 5 \<rparr>,
      LanguageServerProxy_constructor\<lparr> lastAccess := Some 3 \<rparr>,
      LanguageServerProxy_constructor\<lparr> lastAccess := Some 3 \<rparr>]"

definition three_lastAccess :: "nat \<Rightarrow> int" where
  "three_lastAccess h = (if h = 0 then 5 else 3)"

definition full_entry :: LanguageServerData where
  "full_entry =
     \<lparr> ls_definition = java_definition, builtinWorkspaceFolders = False, maxWorkspace = 3,
       languages = [''java''], launcher = \<lparr> running = True \<rparr>,
       languageServerHandlers =
         Some (PerWorkspace [(''/ws/a'', 0), (''/ws/b'', 1), (''/ws/c'', 2)]) \<rparr>"


text \<open>
  Two calls for two workspaces that overlap: the second call is made while the first
  awaits its launch. Then the first launch settles, then the second.
\<close>

definition overlapping_calls :: "Event list" where
  "overlapping_calls =
     [Call (Some ''java'') (workspace_request ''/ws/a'') 1,
      Call (Some ''java'') (workspace_request ''/ws/b'') 2]"

definition launches_settle :: "Event list" where
  "launches_settle = [LaunchSettles 0 True 3, LaunchSettles 0 True 4]"

definition new_execution :: "LanguageServerController \<Rightarrow> Execution" where
  "new_execution c = \<lparr> controller = c, suspended = [] \<rparr>"

section \<open>Properties of the connection proxy\<close>

subsection \<open>One call of \<open>receiveRequest\<close>\<close>

lemma emitted_append: "emitted (es @ fs) = emitted es @ emitted fs"
  by (induction es rule: emitted.induct) auto
lemma receiveRequest_sequenceNumber:
  "sequenceNumber (snd (receiveRequest meth ps n p)) = sequenceNumber p + 1"
  by (simp add: receiveRequest_def Let_def)
lemma receiveRequest_promise:
  "fst (receiveRequest meth ps n p) = length (promises p)"
  by (simp add: receiveRequest_def Let_def)
lemma receiveRequest_promises_length:
  "length (promises (snd (receiveRequest meth ps n p))) = length (promises p) + 1"
  by (simp add: receiveRequest_def Let_def)
lemma receiveRequest_emitted:
  "emitted (effects (snd (receiveRequest meth ps n p))) =
     emitted (effects p) @ [\<lparr> jsonrpc = ''2.0'', msg_id = sequenceNumber p,
                              msg_method = meth, msg_params = ps \<rparr>]"
  by (simp add: receiveRequest_def Let_def emitted_append)
lemma receiveRequest_replies:
  "replies (snd (receiveRequest meth ps n p)) =
     (if default_false n then replies p
      else AList.update (sequenceNumber p) (length (promises p)) (replies p))"
  by (simp add: receiveRequest_def Let_def)
lemma receiveRequest_effects:
  "effects (snd (receiveRequest meth ps n p)) =
     effects p @
       (if default_false n
        then [HttpEmit \<lparr> jsonrpc = ''2.0'', msg_id = sequenceNumber p,
                          msg_method = meth, msg_params = ps \<rparr>,
              PromiseResolve (fst (receiveRequest meth ps n p))]
        else [RepliesSet (sequenceNumber p) (fst (receiveRequest meth ps n p)),
              HttpEmit \<lparr> jsonrpc = ''2.0'', msg_id = sequenceNumber p,
                          msg_method = meth, msg_params = ps \<rparr>])"
  by (simp add: receiveRequest_def Let_def)
lemma receiveRequest_promises_keep:
  "i < length (promises p) \<Longrightarrow>
   promises (snd (receiveRequest meth ps n p)) ! i = promises p ! i"
  by (simp add: receiveRequest_def Let_def nth_append)
lemma receiveRequest_replies_below:
  "replies_below p \<Longrightarrow> replies_below (snd (receiveRequest meth ps n p))"
proof -
  assume b: "replies_below p"
  have "fst ` set (replies (snd (receiveRequest meth ps n p)))
          \<subseteq> insert (sequenceNumber p) (fst ` set (replies p))"
    by (simp add: receiveRequest_replies dom_update subset_insertI)
  then show ?thesis
    using b unfolding replies_below_def receiveRequest_sequenceNumber
    by (metis Suc_eq_plus1 insert_iff less_Suc_eq subsetD)
qed
text \<open>A call leaves the entries of earlier sequence numbers alone.\<close>

lemma receiveRequest_keeps:
  "k < sequenceNumber p \<Longrightarrow>
   map_of (replies (snd (receiveRequest meth ps n p))) k = map_of (replies p) k"
  by (simp add: receiveRequest_replies update_conv')
lemma replies_below_None:
  "replies_below p \<Longrightarrow> sequenceNumber p \<le> k \<Longrightarrow> map_of (replies p) k = None"
  by (force simp: replies_below_def map_of_eq_None_iff)
lemma constructor_replies_below: "replies_below LanguageServerProxy_constructor"
  by (simp add: replies_below_def LanguageServerProxy_constructor_def)
subsection \<open>Runs of calls\<close>

lemma receiveRequests_Cons_snd:
  "snd (receiveRequests ((meth, ps, n) # cs) p) =
     snd (receiveRequests cs (snd (receiveRequest meth ps n p)))"
  by (simp add: split_beta)
lemma receiveRequests_Cons_fst:
  "fst (receiveRequests ((meth, ps, n) # cs) p) =
     fst (receiveRequest meth ps n p) # fst (receiveRequests cs (snd (receiveRequest meth ps n p)))"
  by (simp add: split_beta)
lemmas rr_Cons = receiveRequests_Cons_snd receiveRequests_Cons_fst
lemma receiveRequests_sequenceNumber:
  "sequenceNumber (snd (receiveRequests cs p)) = sequenceNumber p + length cs"
proof (induction cs arbitrary: p)
  case Nil
  show ?case by simp
next
  case (Cons c cs)
  obtain meth ps n where c: "c = (meth, ps, n)" by (cases c)
  show ?case
    using Cons.IH [of "snd (receiveRequest meth ps n p)"]
    by (simp add: c rr_Cons del: receiveRequests.simps add: receiveRequest_sequenceNumber)
qed
lemma receiveRequests_replies_below:
  "replies_below p \<Longrightarrow> replies_below (snd (receiveRequests cs p))"
proof (induction cs arbitrary: p)
  case Nil
  then show ?case by simp
next
  case (Cons c cs)
  obtain meth ps n where c: "c = (meth, ps, n)" by (cases c)
  show ?case
    using Cons.IH [OF receiveRequest_replies_below [OF Cons.prems, of meth ps n]]
    by (simp add: c rr_Cons del: receiveRequests.simps)
qed
lemma receiveRequests_promises:
  "fst (receiveRequests cs p) = [length (promises p) ..< length (promises p) + length cs]"
proof (induction cs arbitrary: p)
  case Nil
  show ?case by simp
next
  case (Cons c cs)
  obtain meth ps n where c: "c = (meth, ps, n)" by (cases c)
  show ?case
    using Cons.IH [of "snd (receiveRequest meth ps n p)"]
    by (simp add: c rr_Cons del: receiveRequests.simps add: receiveRequest_promise receiveRequest_promises_length upt_rec
       )
qed
lemma receiveRequests_promises_length:
  "length (promises (snd (receiveRequests cs p))) = length (promises p) + length cs"
proof (induction cs arbitrary: p)
  case Nil
  show ?case by simp
next
  case (Cons c cs)
  obtain meth ps n where c: "c = (meth, ps, n)" by (cases c)
  show ?case
    using Cons.IH [of "snd (receiveRequest meth ps n p)"]
    by (simp add: c rr_Cons receiveRequest_promises_length del: receiveRequests.simps)
qed
lemma receiveRequests_promises_keep:
  "i < length (promises p) \<Longrightarrow>
   promises (snd (receiveRequests cs p)) ! i = promises p ! i"
proof (induction cs arbitrary: p)
  case Nil
  show ?case by simp
next
  case (Cons c cs)
  obtain meth ps n where c: "c = (meth, ps, n)" by (cases c)
  have "i < length (promises (snd (receiveRequest meth ps n p)))"
    using Cons.prems by (simp add: receiveRequest_promises_length)
  from Cons.IH [OF this] show ?case
    using Cons.prems
    by (simp add: c rr_Cons receiveRequest_promises_keep del: receiveRequests.simps)
qed
lemma receiveRequests_ids:
  "map msg_id (emitted (effects (snd (receiveRequests cs p)))) =
     map msg_id (emitted (effects p)) @ [sequenceNumber p ..< sequenceNumber p + length cs]"
proof (induction cs arbitrary: p)
  case Nil
  show ?case by simp
next
  case (Cons c cs)
  obtain meth ps n where c: "c = (meth, ps, n)" by (cases c)
  show ?case
    using Cons.IH [of "snd (receiveRequest meth ps n p)"]
    by (simp add: c rr_Cons del: receiveRequests.simps add: receiveRequest_emitted receiveRequest_sequenceNumber upt_rec
       )
qed
lemma receiveRequests_keeps:
  "k < sequenceNumber p \<Longrightarrow>
   map_of (replies (snd (receiveRequests cs p))) k = map_of (replies p) k"
proof (induction cs arbitrary: p)
  case Nil
  show ?case by simp
next
  case (Cons c cs)
  obtain meth ps n where c: "c = (meth, ps, n)" by (cases c)
  have "k < sequenceNumber (snd (receiveRequest meth ps n p))"
    using Cons.prems by (simp add: receiveRequest_sequenceNumber)
  from Cons.IH [OF this] show ?case
    using Cons.prems by (simp add: c rr_Cons del: receiveRequests.simps add: receiveRequest_keeps)
qed
lemma receiveRequests_table:
  "replies_below p \<Longrightarrow> k < length cs \<Longrightarrow>
   map_of (replies (snd (receiveRequests cs p))) (sequenceNumber p + k) =
     (if default_false (snd (snd (cs ! k))) then None
      else Some (fst (receiveRequests cs p) ! k))"
proof (induction cs arbitrary: p k)
  case Nil
  then show ?case by simp
next
  case (Cons c cs)
  obtain meth ps n where c: "c = (meth, ps, n)" by (cases c)
  let ?p = "snd (receiveRequest meth ps n p)"
  have below: "replies_below ?p"
    by (rule receiveRequest_replies_below [OF Cons.prems(1)])
  show ?case
  proof (cases k)
    case 0
    have "map_of (replies (snd (receiveRequests cs ?p))) (sequenceNumber p) =
            map_of (replies ?p) (sequenceNumber p)"
      by (rule receiveRequests_keeps) (simp add: receiveRequest_sequenceNumber)
    also have "\<dots> = (if default_false n then None else Some (length (promises p)))"
      using replies_below_None [OF Cons.prems(1), of "sequenceNumber p"]
      by (simp add: receiveRequest_replies update_conv')
    finally show ?thesis
      by (simp add: 0 c rr_Cons receiveRequest_promise del: receiveRequests.simps)
  next
    case (Suc j)
    have "j < length cs" using Cons.prems(2) Suc by simp
    from Cons.IH [OF below this] show ?thesis
      by (simp add: Suc c rr_Cons receiveRequest_sequenceNumber del: receiveRequests.simps)
  qed
qed
text \<open>
  Claim C4. Message ids come from the proxy's own counter, which starts at 0: a call of
  \<open>receiveRequest\<close> (and so of \<open>handleRequest\<close>) gives its message the current value and
  increments the counter, so the calls of a new proxy carry the ids 0, 1, 2, ... in call
  order. A call that expects a response stores its continuation in the reply table under
  exactly the id of its message, and does so before the message is emitted; a
  notification emits and resolves. Hence after any run of calls the reply table maps the
  id of every response-expecting call to the continuation of that very call (the promises
  of different calls are different) and has no entry for the id of a notification: a
  reply is matched by its id, whatever the order of arrival.
\<close>

theorem receiveRequest_ids_from_counter:
  "sequenceNumber LanguageServerProxy_constructor = 0 \<and>
   sequenceNumber (snd (receiveRequest meth ps n p)) = sequenceNumber p + 1 \<and>
   effects (snd (receiveRequest meth ps n p)) =
     effects p @
       (if default_false n
        then [HttpEmit \<lparr> jsonrpc = ''2.0'', msg_id = sequenceNumber p,
                          msg_method = meth, msg_params = ps \<rparr>,
              PromiseResolve (fst (receiveRequest meth ps n p))]
        else [RepliesSet (sequenceNumber p) (fst (receiveRequest meth ps n p)),
              HttpEmit \<lparr> jsonrpc = ''2.0'', msg_id = sequenceNumber p,
                          msg_method = meth, msg_params = ps \<rparr>]) \<and>
   map msg_id (emitted (effects (snd (receiveRequests cs LanguageServerProxy_constructor)))) =
     [0 ..< length cs] \<and>
   length (fst (receiveRequests cs LanguageServerProxy_constructor)) = length cs \<and>
   distinct (fst (receiveRequests cs LanguageServerProxy_constructor)) \<and>
   (\<forall>k < length cs.
      map_of (replies (snd (receiveRequests cs LanguageServerProxy_constructor))) k =
        (if default_false (snd (snd (cs ! k))) then None
         else Some (fst (receiveRequests cs LanguageServerProxy_constructor) ! k)))"
proof -
  let ?p0 = LanguageServerProxy_constructor
  have z: "sequenceNumber ?p0 = 0" "effects ?p0 = []" "promises ?p0 = []"
    by (simp_all add: LanguageServerProxy_constructor_def)
  have ids: "map msg_id (emitted (effects (snd (receiveRequests cs ?p0)))) = [0 ..< length cs]"
    using receiveRequests_ids [of cs ?p0] by (simp add: z)
  have prs: "fst (receiveRequests cs ?p0) = [0 ..< length cs]"
    using receiveRequests_promises [of cs ?p0] by (simp add: z)
  have tab: "\<forall>k < length cs.
      map_of (replies (snd (receiveRequests cs ?p0))) k =
        (if default_false (snd (snd (cs ! k))) then None
         else Some (fst (receiveRequests cs ?p0) ! k))"
    using receiveRequests_table [OF constructor_replies_below, of _ cs] by (simp add: z)
  show ?thesis
    using z(1) receiveRequest_sequenceNumber [of meth ps n p]
      receiveRequest_effects [of meth ps n p] ids tab
    by (simp add: prs)
qed
theorem receiveRequest_ids_from_counter_witness:
  "map msg_id (emitted (effects (snd (receiveRequests three_calls LanguageServerProxy_constructor)))) =
     [0, 1, 2] \<and>
   (2::nat) < length three_calls \<and>
   map_of (replies (snd (receiveRequests three_calls LanguageServerProxy_constructor))) 2 =
     Some (fst (receiveRequests three_calls LanguageServerProxy_constructor) ! 2) \<and>
   map_of (replies (snd (receiveRequests three_calls LanguageServerProxy_constructor))) 1 = None"
proof -
  have len: "length three_calls = 3" by (simp add: three_calls_def)
  have k: "\<not> default_false (snd (snd (three_calls ! 2)))" "default_false (snd (snd (three_calls ! 1)))"
    by (simp_all add: three_calls_def default_false_def)
  have up: "[0 ..< 3] = [0, 1, 2::nat]" by (simp add: upt_rec)
  show ?thesis
    using receiveRequest_ids_from_counter [of "''m''" "''p''" None LanguageServerProxy_constructor three_calls] k
    by (simp add: len up)
qed
text \<open>
  Claim C7. A call with \<open>isNotification = true\<close> returns a promise that is resolved when
  the call returns, leaves the reply table as it was, and no later call on the proxy puts
  an entry under its message id. A call with \<open>isNotification\<close> false (or omitted) adds
  the entry for its id, and its promise is pending; the calls that follow neither settle
  the promise nor touch the entry, so it stays pending until the reply side settles it.
  The statement is about a proxy whose reply table has no entry at or above the counter,
  as is the case for a new proxy and after every call.
\<close>

theorem notification_never_in_reply_table:
  assumes "replies_below p"
  shows "fst (receiveRequest meth ps n p) < length (promises (snd (receiveRequest meth ps n p))) \<and>
     (default_false n \<longrightarrow>
        promises (snd (receiveRequest meth ps n p)) ! fst (receiveRequest meth ps n p) = Resolved \<and>
        replies (snd (receiveRequest meth ps n p)) = replies p \<and>
        map_of (replies (snd (receiveRequests cs (snd (receiveRequest meth ps n p)))))
          (sequenceNumber p) = None) \<and>
     (\<not> default_false n \<longrightarrow>
        promises (snd (receiveRequest meth ps n p)) ! fst (receiveRequest meth ps n p) = Pending \<and>
        map_of (replies (snd (receiveRequest meth ps n p))) (sequenceNumber p) =
          Some (fst (receiveRequest meth ps n p)) \<and>
        promises (snd (receiveRequests cs (snd (receiveRequest meth ps n p))))
          ! fst (receiveRequest meth ps n p) = Pending \<and>
        map_of (replies (snd (receiveRequests cs (snd (receiveRequest meth ps n p)))))
          (sequenceNumber p) = Some (fst (receiveRequest meth ps n p)))"
proof -
  let ?q = "snd (receiveRequest meth ps n p)"
  let ?pr = "fst (receiveRequest meth ps n p)"
  have pr: "?pr = length (promises p)" by (rule receiveRequest_promise)
  have lt: "?pr < length (promises ?q)"
    by (simp add: pr receiveRequest_promises_length)
  have seq: "sequenceNumber p < sequenceNumber ?q"
    by (simp add: receiveRequest_sequenceNumber)
  have keep_tab: "map_of (replies (snd (receiveRequests cs ?q))) (sequenceNumber p) =
      map_of (replies ?q) (sequenceNumber p)"
    by (rule receiveRequests_keeps [OF seq])
  have keep_pr: "promises (snd (receiveRequests cs ?q)) ! ?pr = promises ?q ! ?pr"
    by (rule receiveRequests_promises_keep [OF lt])
  have none: "map_of (replies p) (sequenceNumber p) = None"
    by (rule replies_below_None [OF assms]) simp
  have st: "promises ?q ! ?pr = (if default_false n then Resolved else Pending)"
    by (simp add: receiveRequest_def Let_def nth_append)
  have tab: "map_of (replies ?q) (sequenceNumber p) =
      (if default_false n then None else Some ?pr)"
    using none by (simp add: receiveRequest_replies update_conv' pr)
  have same: "default_false n \<Longrightarrow> replies ?q = replies p"
    by (simp add: receiveRequest_replies)
  show ?thesis
    using lt st tab same none by (simp add: keep_tab keep_pr)
qed
theorem notification_never_in_reply_table_witness:
  "replies_below LanguageServerProxy_constructor \<and>
   default_false (Some True) \<and> \<not> default_false None \<and>
   promises (snd (receiveRequest ''initialized'' ''{}'' (Some True) LanguageServerProxy_constructor))
     ! fst (receiveRequest ''initialized'' ''{}'' (Some True) LanguageServerProxy_constructor) = Resolved \<and>
   map_of (replies (snd (receiveRequests three_calls
       (snd (receiveRequest ''initialized'' ''{}'' (Some True) LanguageServerProxy_constructor))))) 0 = None \<and>
   promises (snd (receiveRequests three_calls
       (snd (receiveRequest ''textDocument/hover'' ''{}'' None LanguageServerProxy_constructor))))
     ! fst (receiveRequest ''textDocument/hover'' ''{}'' None LanguageServerProxy_constructor) = Pending"
proof -
  have d: "default_false (Some True)" "\<not> default_false None"
    by (simp_all add: default_false_def)
  have z: "sequenceNumber LanguageServerProxy_constructor = 0"
    by (simp add: LanguageServerProxy_constructor_def)
  show ?thesis
    using notification_never_in_reply_table [OF constructor_replies_below,
        of "''initialized''" "''{}''" "Some True" three_calls]
      notification_never_in_reply_table [OF constructor_replies_below,
        of "''textDocument/hover''" "''{}''" None three_calls]
      d constructor_replies_below
    by (simp add: z)
qed
subsection \<open>Shutting down\<close>

text \<open>
  Claim C9 says that after \<open>exit()\<close> no later \<open>connect()\<close> establishes a connection again.
  The source does otherwise: \<open>connect()\<close> never reads \<open>closed\<close>, it resets it. On a new
  proxy, \<open>exit()\<close> marks the proxy closed; the next \<open>connect()\<close> clears the mark, creates
  the socket and dials, and the socket's \<open>connect\<close> event installs a client connection.
\<close>

theorem exit_then_connect_reconnects:
  "isClosed (snd (proxy_exit Fulfilled LanguageServerProxy_constructor)) \<and>
   \<not> isClosed (snd (connect (snd (proxy_exit Fulfilled LanguageServerProxy_constructor)))) \<and>
   effects (snd (connect (snd (proxy_exit Fulfilled LanguageServerProxy_constructor)))) =
     [EventEmit ''exit'', NewSocket, SocketConnect] \<and>
   clientConnection
     (socket_on_connect (snd (connect (snd (proxy_exit Fulfilled LanguageServerProxy_constructor))))) =
     Some 0"
  by (simp add: isClosed_def proxy_exit_def connect_def socket_on_connect_def
      LanguageServerProxy_constructor_def)
text \<open>
  Claim C9, as the source has it. \<open>exit()\<close> sends the \<open>shutdown\<close> request followed by the
  \<open>exit\<close> notification only if there is a client connection; a proxy without one sends
  nothing and does not fail. When there is no connection, or the \<open>shutdown\<close> request is
  fulfilled, \<open>exit()\<close> then marks the proxy closed and emits \<open>exit\<close> as its last action.
  The mark does not disable \<open>connect()\<close>: after \<open>exit()\<close>, a proxy with a client
  connection hands that connection out, and a proxy without one clears the mark and dials
  again, so that the socket's \<open>connect\<close> event establishes a client connection.
\<close>

theorem exit_sequence:
  "(clientConnection p = None \<longrightarrow>
      proxy_exit shutdownReply p =
        (ExitDone, p\<lparr> closed := True, effects := effects p @ [EventEmit ''exit''] \<rparr>)) \<and>
   (clientConnection p \<noteq> None \<longrightarrow>
      proxy_exit Fulfilled p =
        (ExitDone,
         p\<lparr> closed := True,
            effects := effects p @ [SendRequest ''shutdown'', SendNotification ''exit'',
                                    ConnDispose, EventEmit ''exit''] \<rparr>)) \<and>
   (clientConnection p \<noteq> None \<longrightarrow>
      connect (snd (proxy_exit Fulfilled p)) =
        (clientConnection p, snd (proxy_exit Fulfilled p))) \<and>
   (clientConnection p = None \<longrightarrow>
      isClosed (snd (proxy_exit shutdownReply p)) \<and>
      \<not> isClosed (snd (connect (snd (proxy_exit shutdownReply p)))) \<and>
      effects (snd (connect (snd (proxy_exit shutdownReply p)))) =
        effects p @ [EventEmit ''exit''] @
          (if connectingPromise p then [SocketConnect] else [NewSocket, SocketConnect]) \<and>
      clientConnection (socket_on_connect (snd (connect (snd (proxy_exit shutdownReply p))))) =
        Some (connections p))"
  by (cases "clientConnection p")
    (simp_all add: isClosed_def proxy_exit_def connect_def socket_on_connect_def Let_def)
theorem exit_sequence_witness:
  "clientConnection LanguageServerProxy_constructor = None \<and>
   clientConnection connected_proxy \<noteq> None \<and>
   proxy_exit Rejected LanguageServerProxy_constructor =
     (ExitDone, LanguageServerProxy_constructor\<lparr> closed := True, effects := [EventEmit ''exit''] \<rparr>) \<and>
   effects (snd (proxy_exit Fulfilled connected_proxy)) =
     effects connected_proxy @
       [SendRequest ''shutdown'', SendNotification ''exit'', ConnDispose, EventEmit ''exit''] \<and>
   clientConnection (socket_on_connect
     (snd (connect (snd (proxy_exit Rejected LanguageServerProxy_constructor))))) = Some 0"
proof -
  have a: "clientConnection LanguageServerProxy_constructor = None"
    by (simp add: LanguageServerProxy_constructor_def)
  have b: "clientConnection connected_proxy \<noteq> None"
    by (simp add: connected_proxy_def connect_def socket_on_connect_def
        LanguageServerProxy_constructor_def)
  have c: "effects LanguageServerProxy_constructor = []"
    "connections LanguageServerProxy_constructor = 0"
    by (simp_all add: LanguageServerProxy_constructor_def)
  have e1: "proxy_exit Rejected LanguageServerProxy_constructor =
      (ExitDone, LanguageServerProxy_constructor\<lparr> closed := True, effects := [EventEmit ''exit''] \<rparr>)"
    using exit_sequence [of LanguageServerProxy_constructor Rejected] a c by simp
  have e2: "clientConnection (socket_on_connect
     (snd (connect (snd (proxy_exit Rejected LanguageServerProxy_constructor))))) = Some 0"
    using exit_sequence [of LanguageServerProxy_constructor Rejected] a c by metis
  have e3: "effects (snd (proxy_exit Fulfilled connected_proxy)) =
     effects connected_proxy @
       [SendRequest ''shutdown'', SendNotification ''exit'', ConnDispose, EventEmit ''exit'']"
    using exit_sequence [of connected_proxy Fulfilled] b by simp
  from a b e1 e2 e3 show ?thesis by blast
qed
text \<open>
  When the \<open>shutdown\<close> request is rejected, the \<open>await\<close> throws: the proxy is neither
  marked closed nor is \<open>exit\<close> emitted.
\<close>

lemma exit_rejected:
  "clientConnection p \<noteq> None \<Longrightarrow>
   proxy_exit Rejected p = (ExitFailed, p\<lparr> effects := effects p @ [SendRequest ''shutdown''] \<rparr>)"
  by (auto simp: proxy_exit_def)
section \<open>Properties of the controller\<close>

subsection \<open>Association lists as JavaScript objects\<close>

lemma update_absent: "k \<notin> fst ` set al \<Longrightarrow> AList.update k v al = al @ [(k, v)]"
  by (induction al) auto
lemma delete_distinct_split:
  "distinct (map fst (pre @ (k, v) # post)) \<Longrightarrow> AList.delete k (pre @ (k, v) # post) = pre @ post"
proof -
  assume d: "distinct (map fst (pre @ (k, v) # post))"
  have "k \<notin> fst ` set pre" "k \<notin> fst ` set post"
    using d by (auto simp: rev_image_eqI)
  then have "AList.delete k pre = pre" "AList.delete k post = post"
    by simp_all
  moreover have "AList.delete k (pre @ (k, v) # post) = AList.delete k pre @ AList.delete k post"
    by (simp add: AList.delete_eq)
  ultimately show ?thesis by simp
qed
lemma length_update_le: "length (AList.update k v al) \<le> Suc (length al)"
  by (induction al) auto
lemma length_delete_less:
  "(k, v) \<in> set al \<Longrightarrow> length (AList.delete k al) < length al"
  by (induction al) (auto simp: less_Suc_eq_le length_delete_le)
lemma case_list_hd:
  "xs \<noteq> [] \<Longrightarrow> (case xs of [] \<Rightarrow> a | y # ys \<Rightarrow> f y) = f (hd xs)"
  by (cases xs) auto
lemma list_update_all:
  "\<forall>x \<in> set xs. P x \<Longrightarrow> (i < length xs \<Longrightarrow> P y) \<Longrightarrow> \<forall>x \<in> set (xs[i := y]). P x"
proof (cases "i < length xs")
  case True
  assume "\<forall>x \<in> set xs. P x" "i < length xs \<Longrightarrow> P y"
  then show ?thesis
    using True set_update_subset_insert [of xs i y] by auto
next
  case False
  assume "\<forall>x \<in> set xs. P x"
  then show ?thesis using False by (simp add: list_update_beyond)
qed
subsection \<open>The scan for the oldest handler\<close>

lemma js_less_Some: "js_less (Some a) (Some b) = (a < b)"
  by (simp add: js_less_def)
lemma oldest_forEach_first:
  "oldest_forEach heap first (first # rest) = oldest_forEach heap first rest"
  by (cases "lastAccess (heap ! snd first)") (simp_all add: js_less_def)
lemma oldest_forEach_mem: "oldest_forEach heap cur xs \<in> set (cur # xs)"
  by (induction xs arbitrary: cur) auto
text \<open>
  When every handler has a \<open>lastAccess\<close>, the scan returns the first entry among those
  with the smallest value: every entry before it is strictly younger, none after it is
  older.
\<close>

lemma oldest_forEach_split:
  "\<forall>x \<in> set (cur # xs). lastAccess (heap ! snd x) = Some (t (snd x)) \<Longrightarrow>
   \<exists>pre post. cur # xs = pre @ oldest_forEach heap cur xs # post \<and>
      (\<forall>x \<in> set pre. t (snd (oldest_forEach heap cur xs)) < t (snd x)) \<and>
      (\<forall>x \<in> set post. t (snd (oldest_forEach heap cur xs)) \<le> t (snd x))"
proof (induction xs arbitrary: cur)
  case Nil
  show ?case by (intro exI [of _ "[]"]) simp
next
  case (Cons x xs)
  have la: "lastAccess (heap ! snd x) = Some (t (snd x))"
    "lastAccess (heap ! snd cur) = Some (t (snd cur))"
    using Cons.prems by simp_all
  show ?case
  proof (cases "t (snd x) < t (snd cur)")
    case True
    define q where "q = oldest_forEach heap x xs"
    have r: "oldest_forEach heap cur (x # xs) = q"
      using True by (simp add: la js_less_Some q_def)
    have "\<forall>y \<in> set (x # xs). lastAccess (heap ! snd y) = Some (t (snd y))"
      using Cons.prems by simp
    from Cons.IH [OF this] obtain pre post where
      sp: "x # xs = pre @ q # post" and
      lt: "\<forall>y \<in> set pre. t (snd q) < t (snd y)" and
      le: "\<forall>y \<in> set post. t (snd q) \<le> t (snd y)"
      unfolding q_def by blast
    have "t (snd q) \<le> t (snd x)"
    proof (cases pre)
      case Nil
      with sp show ?thesis by simp
    next
      case (Cons a pre')
      with sp have "x \<in> set pre" by simp
      with lt show ?thesis by fastforce
    qed
    with True have "t (snd q) < t (snd cur)" by simp
    with lt have "\<forall>y \<in> set (cur # pre). t (snd q) < t (snd y)" by simp
    moreover have "cur # x # xs = (cur # pre) @ q # post" using sp by simp
    ultimately show ?thesis unfolding r using le by blast
  next
    case False
    define q where "q = oldest_forEach heap cur xs"
    have r: "oldest_forEach heap cur (x # xs) = q"
      using False by (simp add: la js_less_Some q_def)
    have "\<forall>y \<in> set (cur # xs). lastAccess (heap ! snd y) = Some (t (snd y))"
      using Cons.prems by simp
    from Cons.IH [OF this] obtain pre post where
      sp: "cur # xs = pre @ q # post" and
      lt: "\<forall>y \<in> set pre. t (snd q) < t (snd y)" and
      le: "\<forall>y \<in> set post. t (snd q) \<le> t (snd y)"
      unfolding q_def by blast
    show ?thesis
    proof (cases pre)
      case Nil
      with sp have c: "q = cur" "post = xs" by simp_all
      have "cur # x # xs = [] @ q # (x # xs)" using c by simp
      moreover have "\<forall>y \<in> set (x # xs). t (snd q) \<le> t (snd y)"
        using le c False by auto
      ultimately show ?thesis unfolding r by (metis empty_iff list.set(1))
    next
      case (Cons a pre')
      with sp have a: "a = cur" and xs: "xs = pre' @ q # post" by simp_all
      have "t (snd q) < t (snd cur)" using lt Cons a by simp
      with False have "t (snd q) < t (snd x)" by simp
      with lt Cons a have "\<forall>y \<in> set (cur # x # pre'). t (snd q) < t (snd y)" by simp
      moreover have "cur # x # xs = (cur # x # pre') @ q # post" using xs by simp
      ultimately show ?thesis unfolding r using le by blast
    qed
  qed
qed
subsection \<open>The branches of \<open>findOrCreateHandler\<close>\<close>

lemma findOrCreateHandler_shared:
  "languageServerHandlers ls = Some (Shared h) \<Longrightarrow>
   findOrCreateHandler env launchOk ls request heap = (Inl IllTypedCast, ls, heap)"
  by (simp add: findOrCreateHandler_def)
lemma findOrCreateHandler_unfold:
  assumes "unshared ls"
  shows "findOrCreateHandler env launchOk ls request heap =
     (let handlers = liveHandlers ls;
          ls0 = ls\<lparr> languageServerHandlers := Some (PerWorkspace handlers) \<rparr>
      in case workspacePath request of
        None \<Rightarrow> (Inl (ResponseError UnknownErrorCode), ls0, heap)
      | Some request_workspacePath \<Rightarrow>
          (if request_workspacePath = []
           then (Inl (ResponseError UnknownErrorCode), ls0, heap)
           else
             (case realpathSync env request_workspacePath of
                None \<Rightarrow> (Inl FsError, ls0, heap)
              | Some realPath \<Rightarrow>
                  (case map_of handlers realPath of
                     Some handler \<Rightarrow> (Inr handler, ls0, heap)
                   | None \<Rightarrow>
                       (if length handlers < maxWorkspace ls
                        then (case launch launchOk (launcher ls) heap of
                                None \<Rightarrow> (Inl LaunchError, ls0, heap)
                              | Some (handler, l', heap') \<Rightarrow>
                                  (Inr handler,
                                   ls0\<lparr> launcher := l',
                                       languageServerHandlers :=
                                         Some (PerWorkspace
                                           (AList.update realPath handler handlers)) \<rparr>,
                                   heap'))
                        else (case handlers of
                                [] \<Rightarrow> (Inl TypeError, ls0, heap)
                              | first # _ \<Rightarrow>
                                  (case oldest_forEach heap first handlers of
                                     (oldestWorkspace, oldestHandler) \<Rightarrow>
                                       (Inr oldestHandler,
                                        ls0\<lparr> languageServerHandlers :=
                                         Some (PerWorkspace
                                           (AList.update request_workspacePath oldestHandler
                                              (AList.delete oldestWorkspace handlers))) \<rparr>,
                                   heap))))))))"
proof (cases "languageServerHandlers ls")
  case None
  then show ?thesis
    unfolding findOrCreateHandler_def liveHandlers_def
      by (simp add: Let_def cong: option.case_cong list.case_cong if_cong)
next
  case (Some hs)
  show ?thesis
  proof (cases hs)
    case (Shared h)
    with Some assms show ?thesis by (simp add: unshared_def)
  next
    case (PerWorkspace m)
    with Some show ?thesis
      unfolding findOrCreateHandler_def liveHandlers_def
      by (simp add: Let_def cong: option.case_cong list.case_cong if_cong)
  qed
qed
lemma findOrCreateHandler_result:
  assumes u: "unshared ls"
  shows
    "(\<exists>e. findOrCreateHandler env launchOk ls request heap =
        (Inl e, ls\<lparr> languageServerHandlers := Some (PerWorkspace (liveHandlers ls)) \<rparr>, heap)) \<or>
     (\<exists>wp rp h. workspacePath request = Some wp \<and> realpathSync env wp = Some rp \<and>
        map_of (liveHandlers ls) rp = Some h \<and>
        findOrCreateHandler env launchOk ls request heap =
          (Inr h, ls\<lparr> languageServerHandlers := Some (PerWorkspace (liveHandlers ls)) \<rparr>, heap)) \<or>
     (\<exists>wp rp. workspacePath request = Some wp \<and> realpathSync env wp = Some rp \<and>
        map_of (liveHandlers ls) rp = None \<and> length (liveHandlers ls) < maxWorkspace ls \<and>
        findOrCreateHandler env launchOk ls request heap =
          (Inr (length heap),
           ls\<lparr> launcher := (launcher ls)\<lparr> running := True \<rparr>,
               languageServerHandlers :=
                 Some (PerWorkspace (AList.update rp (length heap) (liveHandlers ls))) \<rparr>,
           heap @ [LanguageServerProxy_constructor])) \<or>
     (\<exists>wp rp ow oh. workspacePath request = Some wp \<and> realpathSync env wp = Some rp \<and>
        map_of (liveHandlers ls) rp = None \<and> \<not> length (liveHandlers ls) < maxWorkspace ls \<and>
        liveHandlers ls \<noteq> [] \<and>
        oldest_forEach heap (hd (liveHandlers ls)) (liveHandlers ls) = (ow, oh) \<and>
        findOrCreateHandler env launchOk ls request heap =
          (Inr oh,
           ls\<lparr> languageServerHandlers :=
                 Some (PerWorkspace (AList.update wp oh (AList.delete ow (liveHandlers ls)))) \<rparr>,
           heap))"
proof -
  note unf = findOrCreateHandler_unfold [OF u, unfolded Let_def]
  show ?thesis
  proof (cases "workspacePath request")
    case None
    then show ?thesis by (simp add: unf)
  next
    case wp: (Some wp)
    show ?thesis
    proof (cases "wp = []")
      case True
      then show ?thesis by (simp add: unf wp)
    next
      case ne: False
      show ?thesis
      proof (cases "realpathSync env wp")
        case None
        then show ?thesis by (simp add: unf wp ne)
      next
        case rp: (Some rp)
        show ?thesis
        proof (cases "map_of (liveHandlers ls) rp")
          case (Some h)
          then show ?thesis by (simp add: unf wp ne rp)
        next
          case absent: None
          show ?thesis
          proof (cases "length (liveHandlers ls) < maxWorkspace ls")
            case True
            then show ?thesis
              by (cases launchOk) (simp_all add: unf wp ne rp absent launch_def)
          next
            case full: False
            show ?thesis
            proof (cases "liveHandlers ls")
              case Nil
              then show ?thesis using full by (simp add: unf wp ne rp absent)
            next
              case (Cons first rest)
              then have nonempty: "liveHandlers ls \<noteq> []" by simp
              obtain ow oh where
                o: "oldest_forEach heap (hd (liveHandlers ls)) (liveHandlers ls) = (ow, oh)"
                by (cases "oldest_forEach heap (hd (liveHandlers ls)) (liveHandlers ls)")
              have "findOrCreateHandler env launchOk ls request heap =
                  (Inr oh,
                   ls\<lparr> languageServerHandlers :=
                     Some (PerWorkspace (AList.update wp oh (AList.delete ow (liveHandlers ls)))) \<rparr>,
                   heap)"
                using full
                by (simp add: unf wp ne rp absent case_list_hd [OF nonempty] o)
              then show ?thesis
                using wp rp absent full nonempty o by simp
            qed
          qed
        qed
      qed
    qed
  qed
qed
lemma findOrCreateHandler_evict:
  assumes "languageServerHandlers ls = Some (PerWorkspace handlers)"
    and "handlers \<noteq> []" and "\<not> length handlers < maxWorkspace ls"
    and "workspacePath request = Some wp" and "wp \<noteq> []"
    and "realpathSync env wp = Some rp" and "map_of handlers rp = None"
  shows "findOrCreateHandler env launchOk ls request heap =
     (Inr (snd (oldest_forEach heap (hd handlers) handlers)),
      ls\<lparr> languageServerHandlers := Some (PerWorkspace
            (AList.update wp (snd (oldest_forEach heap (hd handlers) handlers))
               (AList.delete (fst (oldest_forEach heap (hd handlers) handlers)) handlers))) \<rparr>,
      heap)"
proof -
  obtain first rest where fr: "handlers = first # rest"
    using assms(2) by (cases handlers) auto
  show ?thesis
    using assms(1,3,7) unfolding fr
    by (simp add: findOrCreateHandler_def assms(4,5,6) Let_def split_beta
        del: oldest_forEach.simps delete_simps)
qed
text \<open>
  Claim C1. Let an entry in per-workspace mode be at capacity (\<open>maxWorkspace\<close> is at least
  1 and the handler map has that many entries), let every live handler have a
  \<open>lastAccess\<close>, and let a request carry a workspace path that is not mapped, neither as
  it is written nor in its canonical form. Then \<open>findOrCreateHandler\<close> selects the first
  entry, in the order of the map's entries, among those with the smallest \<open>lastAccess\<close>;
  it removes that entry's workspace path from the map, registers the same handler under
  the request's workspace path and returns it. No handler is launched and no handler
  object is changed (the store is the same). Afterwards the old path is not present in
  the map, and the request's path maps to the handler.
\<close>

theorem findOrCreateHandler_evicts_oldest:
  assumes handlers: "languageServerHandlers ls = Some (PerWorkspace handlers)"
    and dist: "distinct (map fst handlers)"
    and cap: "1 \<le> maxWorkspace ls" "maxWorkspace ls \<le> length handlers"
    and wp: "workspacePath request = Some wp" "wp \<noteq> []"
    and rp: "realpathSync env wp = Some rp"
    and unmapped: "map_of handlers rp = None" "map_of handlers wp = None"
    and la: "\<forall>(ws, h) \<in> set handlers. lastAccess (heap ! h) = Some (t h)"
  shows "\<exists>pre oldestWorkspace oldestHandler post.
           handlers = pre @ (oldestWorkspace, oldestHandler) # post \<and>
           (\<forall>(ws, h) \<in> set pre. t oldestHandler < t h) \<and>
           (\<forall>(ws, h) \<in> set post. t oldestHandler \<le> t h) \<and>
           findOrCreateHandler env launchOk ls request heap =
             (Inr oldestHandler,
              ls\<lparr> languageServerHandlers :=
                    Some (PerWorkspace (pre @ post @ [(wp, oldestHandler)])) \<rparr>,
              heap) \<and>
           map_of (pre @ post @ [(wp, oldestHandler)]) oldestWorkspace = None \<and>
           map_of (pre @ post @ [(wp, oldestHandler)]) wp = Some oldestHandler"
proof -
  from cap obtain first rest where fr: "handlers = first # rest"
    by (cases handlers) auto
  let ?r = "oldest_forEach heap first handlers"
  have la': "\<forall>x \<in> set (first # rest). lastAccess (heap ! snd x) = Some (t (snd x))"
    using la fr by auto
  from oldest_forEach_split [OF la'] obtain pre post where
    sp: "handlers = pre @ ?r # post" and
    lt: "\<forall>x \<in> set pre. t (snd ?r) < t (snd x)" and
    le: "\<forall>x \<in> set post. t (snd ?r) \<le> t (snd x)"
    unfolding fr oldest_forEach_first by blast
  obtain ow oh where r: "?r = (ow, oh)" by (cases ?r)
  have sp': "handlers = pre @ (ow, oh) # post" using sp r by simp
  have del: "AList.delete ow handlers = pre @ post"
    using dist delete_distinct_split [of pre ow oh post] sp' by simp
  have wp_new: "wp \<notin> fst ` set handlers"
    using unmapped(2) by (simp add: map_of_eq_None_iff)
  have wpnot: "wp \<notin> fst ` set (pre @ post)"
    using wp_new unfolding sp' by auto
  have upd: "AList.update wp oh (pre @ post) = pre @ post @ [(wp, oh)]"
    using update_absent [OF wpnot] by simp
  have ow_ne: "ow \<noteq> wp"
    using wp_new unfolding sp' by auto
  have ow_gone: "ow \<notin> fst ` set (pre @ post)"
    using dist sp' by (auto simp: rev_image_eqI)
  have m1: "map_of (pre @ post @ [(wp, oh)]) ow = None"
    using ow_gone ow_ne by (auto simp: map_of_eq_None_iff)
  have m2: "map_of (pre @ post @ [(wp, oh)]) wp = Some oh"
    using wpnot by (auto simp: map_add_Some_iff map_of_eq_None_iff)
  have ls_eq: "ls\<lparr> languageServerHandlers := Some (PerWorkspace handlers) \<rparr> = ls"
    using handlers by simp
  have ne: "handlers \<noteq> []" and full: "\<not> length handlers < maxWorkspace ls"
    using cap fr by auto
  have r': "oldest_forEach heap (hd handlers) handlers = (ow, oh)"
    using r fr by simp
  have run: "findOrCreateHandler env launchOk ls request heap =
      (Inr oh, ls\<lparr> languageServerHandlers := Some (PerWorkspace (pre @ post @ [(wp, oh)])) \<rparr>, heap)"
    unfolding findOrCreateHandler_evict [OF handlers ne full wp rp unmapped(1)] r'
    by (simp add: del upd)
  have "\<forall>(ws, h) \<in> set pre. t oh < t h" using lt r by auto
  moreover have "\<forall>(ws, h) \<in> set post. t oh \<le> t h" using le r by auto
  ultimately show ?thesis using sp' run m1 m2 by blast
qed
text \<open>The definitions that the evaluation of a concrete run unfolds.\<close>

lemmas example_defs =
  java_controller_def LanguageServerController_constructor_def
  java_definition_def symlink_env_def workspace_request_def dispatchRequest_def
  findLanguageServer_def languageServerMap_get_def installManager_status_of_def
  Object_prototype_methods_def languageServer_at_def languageServer_assign_def
  inherits_handlers_def handlers_view_def handlers_store_def inherited_object_def
  findOrCreateHandler_def launch_def handler_handleRequest_def
  proxy_handleRequest_def receiveRequest_def default_false_def js_less_def liveHandlers_def
  LanguageServerProxy_constructor_def Let_def

theorem findOrCreateHandler_evicts_oldest_witness:
  "languageServerHandlers full_entry =
     Some (PerWorkspace [(''/ws/a'', 0), (''/ws/b'', 1), (''/ws/c'', 2)]) \<and>
   1 \<le> maxWorkspace full_entry \<and>
   maxWorkspace full_entry \<le> length [(''/ws/a'', 0::nat), (''/ws/b'', 1), (''/ws/c'', 2)] \<and>
   map (\<lambda>h. lastAccess (three_proxies ! h)) [0, 1, 2] =
     map (\<lambda>h. Some (three_lastAccess h)) [0, 1, 2] \<and>
   (\<exists>pre oldestWorkspace oldestHandler post.
      [(''/ws/a'', 0), (''/ws/b'', 1), (''/ws/c'', 2)] =
        pre @ (oldestWorkspace, oldestHandler) # post \<and>
      (\<forall>(ws, h) \<in> set pre. three_lastAccess oldestHandler < three_lastAccess h) \<and>
      (\<forall>(ws, h) \<in> set post. three_lastAccess oldestHandler \<le> three_lastAccess h) \<and>
      findOrCreateHandler symlink_env True full_entry (workspace_request ''/ws/d'') three_proxies =
        (Inr oldestHandler,
         full_entry\<lparr> languageServerHandlers :=
               Some (PerWorkspace (pre @ post @ [(''/ws/d'', oldestHandler)])) \<rparr>,
         three_proxies) \<and>
      map_of (pre @ post @ [(''/ws/d'', oldestHandler)]) oldestWorkspace = None \<and>
      map_of (pre @ post @ [(''/ws/d'', oldestHandler)]) ''/ws/d'' = Some oldestHandler) \<and>
   findOrCreateHandler symlink_env True full_entry (workspace_request ''/ws/d'') three_proxies =
     (Inr 1,
      full_entry\<lparr> languageServerHandlers :=
            Some (PerWorkspace [(''/ws/a'', 0), (''/ws/c'', 2), (''/ws/d'', 1)]) \<rparr>,
      three_proxies)"
proof -
  have h1: "languageServerHandlers full_entry =
      Some (PerWorkspace [(''/ws/a'', 0), (''/ws/b'', 1), (''/ws/c'', 2)])"
    by (simp add: full_entry_def)
  have h2: "distinct (map fst [(''/ws/a'', 0::nat), (''/ws/b'', 1), (''/ws/c'', 2)])"
    by simp
  have h3: "1 \<le> maxWorkspace full_entry"
    and h4: "maxWorkspace full_entry \<le> length [(''/ws/a'', 0::nat), (''/ws/b'', 1), (''/ws/c'', 2)]"
    by (simp_all add: full_entry_def)
  have h5: "workspacePath (workspace_request ''/ws/d'') = Some ''/ws/d''"
    and h6: "''/ws/d'' \<noteq> []"
    and h7: "realpathSync symlink_env ''/ws/d'' = Some ''/ws/d''"
    by (simp_all add: workspace_request_def symlink_env_def)
  have h8: "map_of [(''/ws/a'', 0::nat), (''/ws/b'', 1), (''/ws/c'', 2)] ''/ws/d'' = None"
    by simp
  have h9: "\<forall>(ws, h) \<in> set [(''/ws/a'', 0), (''/ws/b'', 1), (''/ws/c'', 2)].
      lastAccess (three_proxies ! h) = Some (three_lastAccess h)"
    by (simp add: three_proxies_def three_lastAccess_def)
  note w = findOrCreateHandler_evicts_oldest [OF h1 h2 h3 h4 h5 h6 h7 h8 h8 h9, of True]
  have e: "findOrCreateHandler symlink_env True full_entry (workspace_request ''/ws/d'') three_proxies =
     (Inr 1,
      full_entry\<lparr> languageServerHandlers :=
            Some (PerWorkspace [(''/ws/a'', 0), (''/ws/c'', 2), (''/ws/d'', 1)]) \<rparr>,
      three_proxies)"
    by (simp add: findOrCreateHandler_def full_entry_def workspace_request_def symlink_env_def
        three_proxies_def js_less_def Let_def)
  have h10: "map (\<lambda>h. lastAccess (three_proxies ! h)) [0, 1, 2] =
      map (\<lambda>h. Some (three_lastAccess h)) [0, 1, 2]"
    by (simp add: three_proxies_def three_lastAccess_def)
  from h1 h3 h4 h10 w e show ?thesis by blast
qed

subsection \<open>The object a request is dispatched to\<close>

lemma languageServer_at_Entry [simp]: "languageServer_at c (Entry i) = languageServers c ! i"
  by (simp add: languageServer_at_def)

lemma builtin_is_entry:
  "builtinWorkspaceFolders (languageServer_at c found) \<Longrightarrow> \<exists>i. found = Entry i"
  by (cases found) (simp_all add: languageServer_at_def inherited_object_def)

lemma languageServer_assign_fields [simp]:
  "languageServerMap (languageServer_assign c found v) = languageServerMap c"
  "detach (languageServer_assign c found v) = detach c"
  "handlerObjects (languageServer_assign c found v) = handlerObjects c"
  by (cases found; simp add: languageServer_assign_def split: option.split Handlers.split)+

lemma languageServer_assign_servers:
  "languageServers (languageServer_assign c found v) =
     (case found of Entry i \<Rightarrow> (languageServers c)[i := v] | _ \<Rightarrow> languageServers c)"
  by (cases found; simp add: languageServer_assign_def split: option.split Handlers.split)

lemma handlers_store_fields [simp]:
  "languageServerMap (handlers_store c found v) = languageServerMap c"
  "detach (handlers_store c found v) = detach c"
  "handlerObjects (handlers_store c found v) = handlerObjects c"
  by (simp_all add: handlers_store_def)

lemma handlers_store_servers:
  "languageServers (handlers_store c found v) =
     (case found of
        Entry i \<Rightarrow>
          (languageServers c)
            [i := (if inherits_handlers c found then v\<lparr> languageServerHandlers := None \<rparr> else v)]
      | _ \<Rightarrow> languageServers c)"
  by (cases found; simp add: handlers_store_def languageServer_assign_servers)

lemma handlers_view_Entry:
  "\<not> inherits_handlers c (Entry i) \<Longrightarrow> handlers_view c (Entry i) = languageServers c ! i"
  by (simp add: handlers_view_def)

lemma handlers_view_fixed [simp]:
  "builtinWorkspaceFolders (handlers_view c found) = builtinWorkspaceFolders (languageServer_at c found)"
  "maxWorkspace (handlers_view c found) = maxWorkspace (languageServer_at c found)"
  "launcher (handlers_view c found) = launcher (languageServer_at c found)"
  "ls_definition (handlers_view c found) = ls_definition (languageServer_at c found)"
  by (simp_all add: handlers_view_def)

lemma handlers_view_inherited:
  "inherits_handlers c found \<Longrightarrow>
   \<exists>m. prototypeHandlers c = Some m \<and>
        languageServerHandlers (handlers_view c found) = Some (PerWorkspace m)"
  by (auto simp: handlers_view_def inherits_handlers_def)

subsection \<open>The branches of \<open>dispatchRequest\<close>\<close>

lemma dispatchRequest_no_language:
  "\<not> truthy lang \<Longrightarrow>
   dispatchRequest env now launchOk lang request c = (Inl (ResponseError UnknownFileLanguage), c)"
  by (cases lang) (simp_all add: dispatchRequest_def truthy_def)

lemma dispatchRequest_rejected:
  "l \<noteq> [] \<Longrightarrow> findLanguageServer env c l = Inl e \<Longrightarrow>
   dispatchRequest env now launchOk (Some l) request c = (Inl e, c)"
  by (simp add: dispatchRequest_def)

lemma dispatchRequest_workspace_error:
  assumes "l \<noteq> []" and "findLanguageServer env c l = Inr found"
    and "\<not> builtinWorkspaceFolders (languageServer_at c found)"
    and "findOrCreateHandler env launchOk (handlers_view c found) request (handlerObjects c) =
           (Inl e, ls1, heap1)"
  shows "dispatchRequest env now launchOk (Some l) request c =
     (Inl e, (handlers_store c found ls1)\<lparr> handlerObjects := heap1 \<rparr>)"
  using assms by (simp add: dispatchRequest_def Let_def)

lemma dispatchRequest_per_workspace:
  assumes "l \<noteq> []" and "findLanguageServer env c l = Inr found"
    and "\<not> builtinWorkspaceFolders (languageServer_at c found)"
    and "findOrCreateHandler env launchOk (handlers_view c found) request (handlerObjects c) =
           (Inr h, ls1, heap1)"
    and "h < length heap1"
  shows "dispatchRequest env now launchOk (Some l) request c =
     (Inr (h, fst (proxy_handleRequest request ((heap1 ! h)\<lparr> lastAccess := Some now \<rparr>))),
      (handlers_store c found ls1)
        \<lparr> handlerObjects :=
           heap1[h := snd (proxy_handleRequest request ((heap1 ! h)\<lparr> lastAccess := Some now \<rparr>))] \<rparr>)"
  using assms
  by (simp add: dispatchRequest_def Let_def handler_handleRequest_def split_beta)

lemma dispatchRequest_per_workspace_heap:
  assumes "l \<noteq> []" and "findLanguageServer env c l = Inr found"
    and "\<not> builtinWorkspaceFolders (languageServer_at c found)"
    and "findOrCreateHandler env launchOk (handlers_view c found) request (handlerObjects c) =
           (r, ls1, heap1)"
  shows "\<exists>heap3. snd (dispatchRequest env now launchOk (Some l) request c) =
           (handlers_store c found ls1)\<lparr> handlerObjects := heap3 \<rparr> \<and>
           length heap3 = length heap1 \<and>
           (\<forall>x. accessed heap1 x \<longrightarrow> accessed heap3 x) \<and>
           (\<forall>h. r = Inr h \<and> h < length heap1 \<longrightarrow> accessed heap3 h)"
proof (cases r)
  case (Inl e)
  then show ?thesis
    using dispatchRequest_workspace_error [OF assms(1,2,3) assms(4) [unfolded Inl], of now]
    by auto
next
  case (Inr h)
  define heap2 where "heap2 = heap1[h := (heap1 ! h)\<lparr> lastAccess := Some now \<rparr>]"
  define heap3 where "heap3 = heap2[h := snd (proxy_handleRequest request (heap2 ! h))]"
  have d: "snd (dispatchRequest env now launchOk (Some l) request c) =
      (handlers_store c found ls1)\<lparr> handlerObjects := heap3 \<rparr>"
    using assms
    by (simp add: dispatchRequest_def Let_def handler_handleRequest_def split_beta Inr
        heap2_def heap3_def)
  have len: "length heap3 = length heap1" by (simp add: heap3_def heap2_def)
  have la: "lastAccess (snd (proxy_handleRequest request p)) = lastAccess p" for p
    by (simp add: proxy_handleRequest_def receiveRequest_def Let_def)
  have keep: "accessed heap3 x" if "accessed heap1 x" for x
    using that
    by (cases "x = h") (auto simp: accessed_def heap3_def heap2_def la nth_list_update)
  have new: "accessed heap3 h" if "h < length heap1"
    using that by (simp add: accessed_def heap3_def heap2_def la)
  show ?thesis using d len keep new Inr by auto
qed

lemma dispatchRequest_builtin_servers:
  assumes "l \<noteq> []" and "findLanguageServer env c l = Inr found"
    and b: "builtinWorkspaceFolders (languageServer_at c found)"
  shows "\<exists>i. found = Entry i \<and>
     (if running (launcher (languageServers c ! i)) \<or> \<not> launchOk
      then languageServers (snd (dispatchRequest env now launchOk (Some l) request c)) =
             languageServers c \<and>
           length (handlerObjects (snd (dispatchRequest env now launchOk (Some l) request c))) =
             length (handlerObjects c)
      else languageServers (snd (dispatchRequest env now launchOk (Some l) request c)) =
             (languageServers c)[i := (languageServers c ! i)
                \<lparr> launcher := (launcher (languageServers c ! i))\<lparr> running := True \<rparr>,
                  languageServerHandlers := Some (Shared (length (handlerObjects c))) \<rparr>] \<and>
           length (handlerObjects (snd (dispatchRequest env now launchOk (Some l) request c))) =
             Suc (length (handlerObjects c))) \<and>
     languageServerMap (snd (dispatchRequest env now launchOk (Some l) request c)) =
       languageServerMap c \<and>
     prototypeHandlers (snd (dispatchRequest env now launchOk (Some l) request c)) =
       prototypeHandlers c \<and>
     (\<forall>x. accessed (handlerObjects c) x \<longrightarrow>
        accessed (handlerObjects (snd (dispatchRequest env now launchOk (Some l) request c))) x)"
proof -
  from builtin_is_entry [OF b] obtain i where f: "found = Entry i" by blast
  have bi: "builtinWorkspaceFolders (languageServers c ! i)" using b f by simp
  have la: "lastAccess (snd (proxy_handleRequest request p)) = lastAccess p" for p
    by (simp add: proxy_handleRequest_def receiveRequest_def Let_def)
  have keep: "accessed (heap[h := snd (proxy_handleRequest request (heap ! h))]) x"
    if "accessed heap x" for heap h x
    using that by (cases "x = h") (auto simp: accessed_def la nth_list_update)
  have app: "accessed (heap @ extra) x" if "accessed heap x" for heap extra x
    using that by (simp add: accessed_def nth_append)
  show ?thesis
  proof (cases "running (launcher (languageServers c ! i)) \<or> \<not> launchOk")
    case True
    then show ?thesis
      using assms(1,2) bi keep
      by (auto simp: dispatchRequest_def f Let_def split_beta launch_def
          languageServer_assign_def handler_handleRequest_def
          split: option.split Handlers.split)
  next
    case False
    then show ?thesis
      using assms(1,2) bi keep app
      by (auto simp: dispatchRequest_def f Let_def split_beta launch_def
          languageServer_assign_def handler_handleRequest_def)
  qed
qed

lemma findOrCreateHandler_heap:
  "snd (snd (findOrCreateHandler env launchOk ls request heap)) = heap \<or>
   snd (snd (findOrCreateHandler env launchOk ls request heap)) =
     heap @ [LanguageServerProxy_constructor]"
proof (cases "unshared ls")
  case False
  then obtain h where "languageServerHandlers ls = Some (Shared h)"
    by (auto simp: unshared_def)
  then show ?thesis by (simp add: findOrCreateHandler_shared)
next
  case True
  from findOrCreateHandler_result [OF True, of env launchOk request heap]
  show ?thesis by (elim disjE exE conjE) simp_all
qed

lemma dispatchRequest_servers:
  "languageServers (snd (dispatchRequest env now launchOk lang request c)) = languageServers c \<or>
   (\<exists>i. \<not> builtinWorkspaceFolders (languageServers c ! i) \<and>
      languageServers (snd (dispatchRequest env now launchOk lang request c)) =
        (languageServers c)
          [i := fst (snd (findOrCreateHandler env launchOk (languageServers c ! i) request
                            (handlerObjects c)))]) \<or>
   (\<exists>i l h. languageServers (snd (dispatchRequest env now launchOk lang request c)) =
        (languageServers c)
          [i := (languageServers c ! i)\<lparr> launcher := l, languageServerHandlers := Some (Shared h) \<rparr>]) \<or>
   (\<exists>i v. languageServerHandlers v = None \<and>
      languageServers (snd (dispatchRequest env now launchOk lang request c)) =
        (languageServers c)[i := v])"
proof (cases "truthy lang")
  case False
  then show ?thesis by (simp add: dispatchRequest_no_language)
next
  case True
  then obtain l where lang: "lang = Some l" and ne: "l \<noteq> []"
    by (auto simp: truthy_def split: option.splits)
  show ?thesis
  proof (cases "findLanguageServer env c l")
    case (Inl e)
    then show ?thesis by (simp add: lang dispatchRequest_rejected [OF ne])
  next
    case (Inr found)
    show ?thesis
    proof (cases "builtinWorkspaceFolders (languageServer_at c found)")
      case True
      from dispatchRequest_builtin_servers [OF ne Inr True, of launchOk now request]
      obtain i where
        b: "if running (launcher (languageServers c ! i)) \<or> \<not> launchOk
            then languageServers (snd (dispatchRequest env now launchOk (Some l) request c)) =
                   languageServers c \<and>
                 length (handlerObjects (snd (dispatchRequest env now launchOk (Some l) request c))) =
                   length (handlerObjects c)
            else languageServers (snd (dispatchRequest env now launchOk (Some l) request c)) =
                   (languageServers c)[i := (languageServers c ! i)
                      \<lparr> launcher := (launcher (languageServers c ! i))\<lparr> running := True \<rparr>,
                        languageServerHandlers := Some (Shared (length (handlerObjects c))) \<rparr>] \<and>
                 length (handlerObjects (snd (dispatchRequest env now launchOk (Some l) request c))) =
                   Suc (length (handlerObjects c))"
        by blast
      show ?thesis
      proof (cases "running (launcher (languageServers c ! i)) \<or> \<not> launchOk")
        case True
        with b show ?thesis by (simp add: lang)
      next
        case False
        with b have "languageServers (snd (dispatchRequest env now launchOk lang request c)) =
            (languageServers c)[i := (languageServers c ! i)
               \<lparr> launcher := (launcher (languageServers c ! i))\<lparr> running := True \<rparr>,
                 languageServerHandlers := Some (Shared (length (handlerObjects c))) \<rparr>]"
          by (simp add: lang)
        then show ?thesis by blast
      qed
    next
      case nb: False
      obtain r ls1 heap1 where
        f: "findOrCreateHandler env launchOk (handlers_view c found) request (handlerObjects c)
              = (r, ls1, heap1)"
        by (cases "findOrCreateHandler env launchOk (handlers_view c found) request
              (handlerObjects c)")
      from dispatchRequest_per_workspace_heap [OF ne Inr nb f, of now]
      have s: "languageServers (snd (dispatchRequest env now launchOk lang request c)) =
          languageServers (handlers_store c found ls1)"
        unfolding lang by auto
      show ?thesis
      proof (cases found)
        case (Entry i)
        show ?thesis
        proof (cases "inherits_handlers c (Entry i)")
          case True
          have "languageServers (snd (dispatchRequest env now launchOk lang request c)) =
              (languageServers c)[i := ls1\<lparr> languageServerHandlers := None \<rparr>]"
            using True by (simp add: s Entry handlers_store_servers)
          moreover have "languageServerHandlers (ls1\<lparr> languageServerHandlers := None \<rparr>) = None"
            by simp
          ultimately show ?thesis by blast
        next
          case False
          have "languageServers (snd (dispatchRequest env now launchOk lang request c)) =
              (languageServers c)[i := ls1]"
            using False by (simp add: s Entry handlers_store_servers)
          moreover have "ls1 = fst (snd (findOrCreateHandler env launchOk (languageServers c ! i)
              request (handlerObjects c)))"
            using f False by (simp add: Entry handlers_view_Entry)
          moreover have "\<not> builtinWorkspaceFolders (languageServers c ! i)"
            using nb Entry by simp
          ultimately show ?thesis by blast
        qed
      qed (simp_all add: s handlers_store_servers)
    qed
  qed
qed
subsection \<open>The bound on the pool when calls do not overlap\<close>

lemma liveHandlers_unshared:
  "unshared ls \<Longrightarrow> pool_bounded ls \<Longrightarrow>
   pool_bounded (ls\<lparr> languageServerHandlers := Some (PerWorkspace (liveHandlers ls)) \<rparr>)"
  by (simp add: pool_bounded_def liveHandlers_def)
lemma findOrCreateHandler_bounded:
  assumes b: "pool_bounded ls"
  shows "pool_bounded (fst (snd (findOrCreateHandler env launchOk ls request heap)))"
proof (cases "unshared ls")
  case False
  then obtain h where "languageServerHandlers ls = Some (Shared h)"
    by (auto simp: unshared_def)
  then show ?thesis using b by (simp add: findOrCreateHandler_shared)
next
  case u: True
  define handlers where "handlers = liveHandlers ls"
  have d: "distinct (map fst handlers)" and le: "length handlers \<le> maxWorkspace ls"
    using b by (simp_all add: pool_bounded_def handlers_def)
  have set: "pool_bounded (ls\<lparr> languageServerHandlers := Some (PerWorkspace m) \<rparr>)"
    if "distinct (map fst m)" "length m \<le> maxWorkspace ls" for m
    using that by (simp add: pool_bounded_def liveHandlers_def)
  have set': "pool_bounded (ls\<lparr> launcher := l, languageServerHandlers := Some (PerWorkspace m) \<rparr>)"
    if "distinct (map fst m)" "length m \<le> maxWorkspace ls" for m l
    using that by (simp add: pool_bounded_def liveHandlers_def)
  from findOrCreateHandler_result [OF u, of env launchOk request heap]
  consider
    (same) r where "findOrCreateHandler env launchOk ls request heap =
        (r, ls\<lparr> languageServerHandlers := Some (PerWorkspace handlers) \<rparr>, heap)"
  | (launched) rp where "length handlers < maxWorkspace ls"
      "findOrCreateHandler env launchOk ls request heap =
          (Inr (length heap),
           ls\<lparr> launcher := (launcher ls)\<lparr> running := True \<rparr>,
               languageServerHandlers :=
                 Some (PerWorkspace (AList.update rp (length heap) handlers)) \<rparr>,
           heap @ [LanguageServerProxy_constructor])"
  | (evicted) wp ow oh where "handlers \<noteq> []"
      "oldest_forEach heap (hd handlers) handlers = (ow, oh)"
      "findOrCreateHandler env launchOk ls request heap =
          (Inr oh,
           ls\<lparr> languageServerHandlers :=
                 Some (PerWorkspace (AList.update wp oh (AList.delete ow handlers))) \<rparr>,
           heap)"
    unfolding handlers_def by blast
  then show ?thesis
  proof cases
    case same
    then show ?thesis using set [OF d le] by simp
  next
    case launched
    have "length (AList.update rp (length heap) handlers) \<le> maxWorkspace ls"
      using length_update_le [of rp "length heap" handlers] launched(1) by simp
    from set' [OF distinct_update [OF d] this] show ?thesis
      by (simp add: launched(2))
  next
    case evicted
    have "oldest_forEach heap (hd handlers) handlers \<in> set handlers"
      using oldest_forEach_mem [of heap "hd handlers" handlers] evicted(1)
      by (cases handlers) auto
    then have "(ow, oh) \<in> set handlers" by (simp add: evicted(2))
    from length_delete_less [OF this]
    have "length (AList.update wp oh (AList.delete ow handlers)) \<le> length handlers"
      using length_update_le [of wp oh "AList.delete ow handlers"] by simp
    then have "length (AList.update wp oh (AList.delete ow handlers)) \<le> maxWorkspace ls"
      using le by simp
    from set [OF distinct_update [OF distinct_delete [OF d]] this] show ?thesis
      by (simp add: evicted(3))
  qed
qed
lemma findOrCreateHandler_launch_below:
  assumes "snd (snd (findOrCreateHandler env launchOk ls request heap)) \<noteq> heap"
  shows "length (liveHandlers ls) < maxWorkspace ls \<and>
         length (liveHandlers (fst (snd (findOrCreateHandler env launchOk ls request heap))))
           \<le> Suc (length (liveHandlers ls))"
proof (cases "unshared ls")
  case False
  then obtain h where "languageServerHandlers ls = Some (Shared h)"
    by (auto simp: unshared_def)
  then show ?thesis using assms by (simp add: findOrCreateHandler_shared)
next
  case u: True
  from findOrCreateHandler_result [OF u, of env launchOk request heap] assms
  obtain rp where "length (liveHandlers ls) < maxWorkspace ls"
      "findOrCreateHandler env launchOk ls request heap =
          (Inr (length heap),
           ls\<lparr> launcher := (launcher ls)\<lparr> running := True \<rparr>,
               languageServerHandlers :=
                 Some (PerWorkspace (AList.update rp (length heap) (liveHandlers ls))) \<rparr>,
           heap @ [LanguageServerProxy_constructor])"
    by fastforce
  then show ?thesis
    using length_update_le [of rp "length heap" "liveHandlers ls"]
    by (simp add: liveHandlers_def)
qed
lemma dispatchRequest_bounded:
  assumes "all_bounded c"
  shows "all_bounded (snd (dispatchRequest env now launchOk lang request c))"
proof -
  have a: "\<forall>ls \<in> set (languageServers c). pool_bounded ls"
    using assms by (simp add: all_bounded_def)
  from dispatchRequest_servers [of env now launchOk lang request c]
  show ?thesis
  proof (elim disjE exE conjE)
    assume "languageServers (snd (dispatchRequest env now launchOk lang request c)) = languageServers c"
    then show ?thesis using a by (simp add: all_bounded_def)
  next
    fix i
    assume e: "languageServers (snd (dispatchRequest env now launchOk lang request c)) =
        (languageServers c)
          [i := fst (snd (findOrCreateHandler env launchOk (languageServers c ! i) request
                            (handlerObjects c)))]"
    show ?thesis
      unfolding all_bounded_def e
      by (rule list_update_all [OF a]) (simp add: findOrCreateHandler_bounded a)
  next
    fix i l h
    assume e: "languageServers (snd (dispatchRequest env now launchOk lang request c)) =
        (languageServers c)
          [i := (languageServers c ! i)\<lparr> launcher := l, languageServerHandlers := Some (Shared h) \<rparr>]"
    show ?thesis
      unfolding all_bounded_def e
      by (rule list_update_all [OF a]) (simp add: pool_bounded_def liveHandlers_def)
  next
    fix i v
    assume v: "languageServerHandlers v = None"
      and e: "languageServers (snd (dispatchRequest env now launchOk lang request c)) =
        (languageServers c)[i := v]"
    show ?thesis
      unfolding all_bounded_def e
      by (rule list_update_all [OF a]) (simp add: pool_bounded_def liveHandlers_def v)
  qed
qed
lemma handleRequest_bounded:
  "all_bounded c \<Longrightarrow> all_bounded (snd (handleRequest env now launchOk request c))"
  by (simp add: handleRequest_def dispatchRequest_bounded split: option.split)
lemma pool_bounded_delete:
  "pool_bounded ls \<Longrightarrow> languageServerHandlers ls = Some (PerWorkspace m) \<Longrightarrow>
   pool_bounded (ls\<lparr> languageServerHandlers := Some (PerWorkspace (AList.delete k m)) \<rparr>)"
  using length_delete_le [of k m]
  by (simp add: pool_bounded_def liveHandlers_def distinct_delete)
lemma unloadWorkspace_loop_bounded:
  "\<forall>ls \<in> set lss. pool_bounded ls \<Longrightarrow>
   \<forall>ls \<in> set (fst (snd (unloadWorkspace_loop env unloadOk workspaceDir inherited lss))).
     pool_bounded ls"
proof (induction lss arbitrary: inherited)
  case Nil
  show ?case by simp
next
  case (Cons languageServer rest)
  have r: "\<forall>ls \<in> set (fst (snd (unloadWorkspace_loop env unloadOk workspaceDir m rest))).
      pool_bounded ls" for m
    using Cons by simp
  have h: "pool_bounded languageServer" and t: "\<forall>ls \<in> set rest. pool_bounded ls"
    using Cons.prems by simp_all
  show ?case
    using r h t pool_bounded_delete [OF h]
    by (simp add: split_beta split: option.split Handlers.split)
qed
lemma unloadWorkspace_bounded:
  "all_bounded c \<Longrightarrow> all_bounded (snd (unloadWorkspace env unloadOk workspaceDir c))"
  using unloadWorkspace_loop_bounded [of "languageServers c" env unloadOk workspaceDir]
  by (simp add: all_bounded_def unloadWorkspace_def split_beta)
lemma step_bounded:
  assumes "all_bounded c"
  shows "all_bounded (step env operation c)"
  using assms
  by (cases operation)
    (simp_all add: handleRequest_bounded dispatchRequest_bounded unloadWorkspace_bounded)
lemma run_bounded: "all_bounded c \<Longrightarrow> all_bounded (run env ops c)"
  by (induction ops arbitrary: c) (simp_all add: step_bounded)
lemma constructor_bounded:
  "all_bounded (LanguageServerController_constructor defs n d)"
  by (simp add: all_bounded_def LanguageServerController_constructor_def pool_bounded_def
      liveHandlers_def Let_def)
lemma three_dispatches_run:
  "map liveHandlers (languageServers (run symlink_env three_dispatches (java_controller 2))) =
     [[(''/ws/b'', 1), (''/ws/c'', 0)]]"
  by (simp add: three_dispatches_def example_defs)
subsection \<open>Overlapping calls\<close>

text \<open>
  A call that is suspended and goes on at once, with no other call in between, is the
  call of the function that does not stop.
\<close>

lemma liveHandlers_update [simp]:
  "liveHandlers (ls\<lparr> languageServerHandlers := Some (PerWorkspace m) \<rparr>) = m"
  "liveHandlers (ls\<lparr> launcher := l, languageServerHandlers := Some (PerWorkspace m) \<rparr>) = m"
  by (simp_all add: liveHandlers_def)

lemma findOrCreateHandler_split:
  "findOrCreateHandler env launchOk ls request heap =
     (case findOrCreateHandler_until_launch env ls request heap of
        (Inl r, ls0) \<Rightarrow> (r, ls0, heap)
      | (Inr realPath, ls0) \<Rightarrow> findOrCreateHandler_after_launch launchOk realPath ls0 heap)"
proof (cases "unshared ls")
  case False
  then obtain h where "languageServerHandlers ls = Some (Shared h)"
    by (auto simp: unshared_def)
  then show ?thesis
    by (simp add: findOrCreateHandler_def findOrCreateHandler_until_launch_def)
next
  case True
  have u: "findOrCreateHandler_until_launch env ls request heap =
     (let handlers = liveHandlers ls;
          ls0 = ls\<lparr> languageServerHandlers := Some (PerWorkspace handlers) \<rparr>
      in case workspacePath request of
        None \<Rightarrow> (Inl (Inl (ResponseError UnknownErrorCode)), ls0)
      | Some request_workspacePath \<Rightarrow>
          (if request_workspacePath = []
           then (Inl (Inl (ResponseError UnknownErrorCode)), ls0)
           else
             (case realpathSync env request_workspacePath of
                None \<Rightarrow> (Inl (Inl FsError), ls0)
              | Some realPath \<Rightarrow>
                  (case map_of handlers realPath of
                     Some handler \<Rightarrow> (Inl (Inr handler), ls0)
                   | None \<Rightarrow>
                       (if length handlers < maxWorkspace ls
                        then (Inr realPath, ls0)
                        else (case handlers of
                                [] \<Rightarrow> (Inl (Inl TypeError), ls0)
                              | first # _ \<Rightarrow>
                                  (case oldest_forEach heap first handlers of
                                     (oldestWorkspace, oldestHandler) \<Rightarrow>
                                       (Inl (Inr oldestHandler),
                                        ls0\<lparr> languageServerHandlers :=
                                         Some (PerWorkspace
                                           (AList.update request_workspacePath oldestHandler
                                              (AList.delete oldestWorkspace handlers))) \<rparr>))))))))"
  proof (cases "languageServerHandlers ls")
    case None
    then show ?thesis
      unfolding findOrCreateHandler_until_launch_def liveHandlers_def
      by (simp add: Let_def cong: option.case_cong list.case_cong if_cong)
  next
    case (Some hs)
    show ?thesis
    proof (cases hs)
      case (Shared h)
      with Some True show ?thesis by (simp add: unshared_def)
    next
      case (PerWorkspace m)
      with Some show ?thesis
        unfolding findOrCreateHandler_until_launch_def liveHandlers_def
        by (simp add: Let_def cong: option.case_cong list.case_cong if_cong)
    qed
  qed
  show ?thesis
    unfolding findOrCreateHandler_unfold [OF True] u
    by (simp add: Let_def findOrCreateHandler_after_launch_def split_beta
        split: option.split list.split)
qed

lemma until_launch_suspends:
  assumes "findOrCreateHandler_until_launch env ls request heap = (Inr realPath, ls0)"
  shows "0 < maxWorkspace ls \<and>
         ls0 = ls\<lparr> languageServerHandlers := Some (PerWorkspace (liveHandlers ls)) \<rparr>"
proof (cases "languageServerHandlers ls")
  case None
  then show ?thesis
    using assms
    by (auto simp: findOrCreateHandler_until_launch_def liveHandlers_def Let_def split_beta
        split: option.splits list.splits if_splits)
next
  case (Some hs)
  then show ?thesis
    using assms
    by (cases hs)
      (auto simp: findOrCreateHandler_until_launch_def liveHandlers_def Let_def split_beta
        split: option.splits list.splits if_splits)
qed

lemma handlers_store_inherited:
  "inherits_handlers c (Entry i) \<Longrightarrow>
   handlers_store c (Entry i) v =
     c\<lparr> languageServers := (languageServers c)[i := v\<lparr> languageServerHandlers := None \<rparr>],
        prototypeHandlers := Some (liveHandlers v) \<rparr>"
  by (simp add: handlers_store_def languageServer_assign_def)

lemma handlers_store_own:
  "\<not> inherits_handlers c (Entry i) \<Longrightarrow>
   handlers_store c (Entry i) v = c\<lparr> languageServers := (languageServers c)[i := v] \<rparr>"
  by (simp add: handlers_store_def languageServer_assign_def)

lemma handlers_view_store:
  assumes i: "i < length (languageServers c)"
    and v: "languageServerHandlers v = Some (PerWorkspace m)"
  shows "handlers_view (handlers_store c (Entry i) v) (Entry i) = v"
proof (cases "inherits_handlers c (Entry i)")
  case True
  have lv: "liveHandlers v = m" using v by (simp add: liveHandlers_def)
  have "v\<lparr> languageServerHandlers := Some (PerWorkspace m) \<rparr> = v"
    using v by simp
  then show ?thesis
    unfolding handlers_store_inherited [OF True]
    using i by (simp add: handlers_view_def inherits_handlers_def lv)
next
  case False
  show ?thesis
    unfolding handlers_store_own [OF False]
    using i v by (simp add: handlers_view_def inherits_handlers_def)
qed

lemma handlers_store_store:
  assumes i: "i < length (languageServers c)"
    and v: "languageServerHandlers v = Some (PerWorkspace m)"
  shows "handlers_store (handlers_store c (Entry i) v) (Entry i) w = handlers_store c (Entry i) w"
proof (cases "inherits_handlers c (Entry i)")
  case True
  have "inherits_handlers
      (c\<lparr> languageServers := (languageServers c)[i := v\<lparr> languageServerHandlers := None \<rparr>],
          prototypeHandlers := Some (liveHandlers v) \<rparr>) (Entry i)"
    using i by (simp add: inherits_handlers_def)
  from handlers_store_inherited [OF this] show ?thesis
    unfolding handlers_store_inherited [OF True] by simp
next
  case False
  have "\<not> inherits_handlers (c\<lparr> languageServers := (languageServers c)[i := v] \<rparr>) (Entry i)"
    using i v by (simp add: inherits_handlers_def)
  from handlers_store_own [OF this] show ?thesis
    unfolding handlers_store_own [OF False] by simp
qed

lemma findLanguageServer_found:
  "findLanguageServer env c l = Inr found \<Longrightarrow> languageServerMap_get c l = Some found"
  by (auto simp: findLanguageServer_def split: option.splits if_splits)

lemma languageServerMap_get_Entry:
  "languageServerMap_get c l = Some (Entry i) \<longleftrightarrow> map_of (languageServerMap c) l = Some i"
  by (auto simp: languageServerMap_get_def split: option.splits)

lemma well_formed_found:
  assumes "well_formed c" and "findLanguageServer env c l = Inr (Entry i)"
  shows "i < length (languageServers c)"
proof -
  have "map_of (languageServerMap c) l = Some i"
    using findLanguageServer_found [OF assms(2)] by (simp add: languageServerMap_get_Entry)
  then have "i \<in> snd ` set (languageServerMap c)"
    using map_of_SomeD by force
  moreover have "\<forall>i \<in> snd ` set (languageServerMap c). i < length (languageServers c)"
    using assms(1) unfolding well_formed_def by (rule conjunct1)
  ultimately show ?thesis by blast
qed

lemma suspended_is_entry:
  assumes "findOrCreateHandler_until_launch env (handlers_view c found) request heap =
             (Inr realPath, ls0)"
  shows "\<exists>i. found = Entry i"
proof -
  have "0 < maxWorkspace (languageServer_at c found)"
    using until_launch_suspends [OF assms] by simp
  then show ?thesis
    by (cases found) (simp_all add: languageServer_at_def inherited_object_def)
qed

lemma dispatchRequest_split:
  assumes wf: "well_formed c"
  shows "dispatchRequest env now launchOk lang request c =
     (case dispatchRequest_until_launch env now lang request c of
        (Inl r, c1) \<Rightarrow> (r, c1)
      | (Inr s, c1) \<Rightarrow> dispatchRequest_after_launch now launchOk s request c1)"
proof (cases "truthy lang")
  case False
  then show ?thesis
    by (cases lang)
      (simp_all add: dispatchRequest_def dispatchRequest_until_launch_def truthy_def)
next
  case True
  then obtain l where lang: "lang = Some l" and ne: "l \<noteq> []"
    by (auto simp: truthy_def split: option.splits)
  show ?thesis
  proof (cases "findLanguageServer env c l")
    case (Inl e)
    then show ?thesis
      by (simp add: lang ne dispatchRequest_def dispatchRequest_until_launch_def)
  next
    case (Inr found)
    show ?thesis
    proof (cases "builtinWorkspaceFolders (languageServer_at c found)")
      case b: True
      from builtin_is_entry [OF b] obtain i where f: "found = Entry i" by blast
      show ?thesis
      proof (cases "running (launcher (languageServers c ! i))")
        case True
        then show ?thesis
          using b
          by (simp add: lang ne Inr f dispatchRequest_def dispatchRequest_until_launch_def
              Let_def split_beta split: option.split Handlers.split)
      next
        case False
        then show ?thesis
          using b
          by (simp add: lang ne Inr f dispatchRequest_def dispatchRequest_until_launch_def
              dispatchRequest_after_launch_def Let_def split_beta launch_def)
      qed
    next
      case nb: False
      obtain x ls0 where
        u: "findOrCreateHandler_until_launch env (handlers_view c found) request (handlerObjects c)
              = (x, ls0)"
        by (cases "findOrCreateHandler_until_launch env (handlers_view c found) request
              (handlerObjects c)")
      note sp = findOrCreateHandler_split
        [of env launchOk "handlers_view c found" request "handlerObjects c", unfolded u]
      show ?thesis
      proof (cases x)
        case (Inl r)
        have same: "(handlers_store c found ls0)\<lparr> handlerObjects := handlerObjects c \<rparr> =
            handlers_store c found ls0"
          by (simp add: handlers_store_def)
        show ?thesis
          using nb same
          by (cases r)
            (simp_all add: lang ne Inr dispatchRequest_def dispatchRequest_until_launch_def
              sp u Inl Let_def split_beta)
      next
        case suspended: (Inr realPath)
        from suspended_is_entry [OF u [unfolded suspended]] obtain i where f: "found = Entry i"
          by blast
        have i: "i < length (languageServers c)"
          using well_formed_found [OF wf] Inr f by simp
        have hs: "languageServerHandlers ls0 =
            Some (PerWorkspace (liveHandlers (handlers_view c found)))"
          using until_launch_suspends [OF u [unfolded suspended]] by simp
        have v: "handlers_view (handlers_store c (Entry i) ls0) (Entry i) = ls0"
          by (rule handlers_view_store [OF i hs])
        have st: "handlers_store (handlers_store c (Entry i) ls0) (Entry i) w =
            handlers_store c (Entry i) w" for w
          by (rule handlers_store_store [OF i hs])
        show ?thesis
          using nb
          by (simp add: lang ne Inr dispatchRequest_def dispatchRequest_until_launch_def
              dispatchRequest_after_launch_def sp u suspended f [symmetric] Let_def
              v [folded f] st [folded f] split_beta split: sum.split)
      qed
    qed
  qed
qed

text \<open>
  So a call followed at once by the settling of its launch is a step of a \<open>run\<close>.
\<close>

lemma call_then_settle:
  assumes "well_formed c"
  shows "controller (events env [Call lang request now, LaunchSettles 0 launchOk now]
            (new_execution c)) =
         step env (DispatchRequest lang request now launchOk) c"
proof -
  obtain x c1 where u: "dispatchRequest_until_launch env now lang request c = (x, c1)"
    by (cases "dispatchRequest_until_launch env now lang request c")
  show ?thesis
    using dispatchRequest_split [OF assms, of env now launchOk lang request]
    by (cases x) (simp_all add: new_execution_def u)
qed
text \<open>
  Claim C2 asks that an entry in per-workspace mode never hold more live handlers than
  \<open>maxWorkspace\<close>. \<open>findOrCreateHandler\<close> compares the number of handlers with
  \<open>maxWorkspace\<close> before it awaits the launch and inserts the new handler after it.
  With \<open>maxWorkspace = 1\<close> and no handler yet, a call for \<open>/ws/a\<close> and a call for
  \<open>/ws/b\<close> that is made while the first awaits its launch both find the map empty and
  both launch; when the two launches have settled the map holds two handlers. The same
  two calls, the second made after the first has ended, leave one handler: the second
  call evicts.
\<close>

theorem overlapping_dispatch_exceeds_maxWorkspace:
  "map maxWorkspace (languageServers (java_controller 1)) = [1] \<and>
   map liveHandlers (languageServers (controller
       (events symlink_env overlapping_calls (new_execution (java_controller 1))))) = [[]] \<and>
   map fst (suspended
       (events symlink_env overlapping_calls (new_execution (java_controller 1)))) =
     [AwaitWorkspaceLaunch (Entry 0) ''/ws/a'', AwaitWorkspaceLaunch (Entry 0) ''/ws/b''] \<and>
   map liveHandlers (languageServers (controller
       (events symlink_env (overlapping_calls @ launches_settle)
          (new_execution (java_controller 1))))) =
     [[(''/ws/a'', 0), (''/ws/b'', 1)]] \<and>
   map maxWorkspace (languageServers (controller
       (events symlink_env (overlapping_calls @ launches_settle)
          (new_execution (java_controller 1))))) = [1] \<and>
   length (handlerObjects (controller
       (events symlink_env (overlapping_calls @ launches_settle)
          (new_execution (java_controller 1))))) = 2 \<and>
   suspended (events symlink_env (overlapping_calls @ launches_settle)
          (new_execution (java_controller 1))) = [] \<and>
   map liveHandlers (languageServers (run symlink_env two_workspaces (java_controller 1))) =
     [[(''/ws/b'', 0)]] \<and>
   length (handlerObjects (run symlink_env two_workspaces (java_controller 1))) = 1"
  by (simp add: example_defs overlapping_calls_def launches_settle_def new_execution_def
      two_workspaces_def dispatchRequest_until_launch_def dispatchRequest_after_launch_def
      findOrCreateHandler_until_launch_def findOrCreateHandler_after_launch_def)

subsection \<open>Well-formed controllers\<close>

text \<open>
  The controller the constructor builds is well formed, and every operation keeps it so.
  In a well-formed controller no index is out of range and no operation uses a
  \<open>languageServerHandlers\<close> that an entry has itself at the wrong alternative of its
  type.
\<close>

lemma entry_ok_mono: "entry_ok n ls \<Longrightarrow> n \<le> m \<Longrightarrow> entry_ok m ls"
  by (auto simp: entry_ok_def split: option.splits Handlers.splits)
lemma entry_ok_unshared: "entry_ok n ls \<Longrightarrow> \<not> builtinWorkspaceFolders ls \<Longrightarrow> unshared ls"
  by (auto simp: entry_ok_def unshared_def)
lemma entry_ok_live:
  "entry_ok n ls \<Longrightarrow> \<not> builtinWorkspaceFolders ls \<Longrightarrow> \<forall>h \<in> snd ` set (liveHandlers ls). h < n"
  by (auto simp: entry_ok_def liveHandlers_def split: option.splits Handlers.splits)
lemma entry_ok_set:
  "\<not> builtinWorkspaceFolders ls \<Longrightarrow> \<forall>h \<in> snd ` set m. h < n \<Longrightarrow>
   entry_ok n (ls\<lparr> languageServerHandlers := Some (PerWorkspace m) \<rparr>)"
  "\<not> builtinWorkspaceFolders ls \<Longrightarrow> \<forall>h \<in> snd ` set m. h < n \<Longrightarrow>
   entry_ok n (ls\<lparr> launcher := l, languageServerHandlers := Some (PerWorkspace m) \<rparr>)"
  by (simp_all add: entry_ok_def)
lemma set_update_subset: "set (AList.update k v al) \<subseteq> insert (k, v) (set al)"
  by (induction al) auto
lemma set_delete_subset: "set (AList.delete k al) \<subseteq> set al"
  by (auto simp: AList.delete_eq)
lemma entry_ok_delete:
  "entry_ok n ls \<Longrightarrow> languageServerHandlers ls = Some (PerWorkspace m) \<Longrightarrow>
   entry_ok n (ls\<lparr> languageServerHandlers := Some (PerWorkspace (AList.delete k m)) \<rparr>)"
  using set_delete_subset [of k m] by (auto simp: entry_ok_def)
lemma findOrCreateHandler_entry_ok:
  assumes ok: "entry_ok (length heap) ls" and nb: "\<not> builtinWorkspaceFolders ls"
  shows "entry_ok (length (snd (snd (findOrCreateHandler env launchOk ls request heap))))
           (fst (snd (findOrCreateHandler env launchOk ls request heap))) \<and>
         length heap \<le> length (snd (snd (findOrCreateHandler env launchOk ls request heap))) \<and>
         (\<forall>h. fst (findOrCreateHandler env launchOk ls request heap) = Inr h \<longrightarrow>
              h < length (snd (snd (findOrCreateHandler env launchOk ls request heap))))"
proof -
  have u: "unshared ls" by (rule entry_ok_unshared [OF ok nb])
  have live: "\<forall>h \<in> snd ` set (liveHandlers ls). h < length heap"
    by (rule entry_ok_live [OF ok nb])
  from findOrCreateHandler_result [OF u, of env launchOk request heap]
  consider
    (failed) e where "findOrCreateHandler env launchOk ls request heap =
        (Inl e, ls\<lparr> languageServerHandlers := Some (PerWorkspace (liveHandlers ls)) \<rparr>, heap)"
  | (found) rp h where "map_of (liveHandlers ls) rp = Some h"
      "findOrCreateHandler env launchOk ls request heap =
        (Inr h, ls\<lparr> languageServerHandlers := Some (PerWorkspace (liveHandlers ls)) \<rparr>, heap)"
  | (launched) rp where
      "findOrCreateHandler env launchOk ls request heap =
          (Inr (length heap),
           ls\<lparr> launcher := (launcher ls)\<lparr> running := True \<rparr>,
               languageServerHandlers :=
                 Some (PerWorkspace (AList.update rp (length heap) (liveHandlers ls))) \<rparr>,
           heap @ [LanguageServerProxy_constructor])"
  | (evicted) wp ow oh where "liveHandlers ls \<noteq> []"
      "oldest_forEach heap (hd (liveHandlers ls)) (liveHandlers ls) = (ow, oh)"
      "findOrCreateHandler env launchOk ls request heap =
          (Inr oh,
           ls\<lparr> languageServerHandlers :=
                 Some (PerWorkspace (AList.update wp oh (AList.delete ow (liveHandlers ls)))) \<rparr>,
           heap)"
    by blast
  then show ?thesis
  proof cases
    case failed
    then show ?thesis using entry_ok_set(1) [OF nb live] by simp
  next
    case found
    have "h \<in> snd ` set (liveHandlers ls)"
      using map_of_SomeD [OF found(1)] by force
    then have "h < length heap" using live by blast
    then show ?thesis using entry_ok_set(1) [OF nb live] by (simp add: found(2))
  next
    case launched
    have "\<forall>h \<in> snd ` set (AList.update rp (length heap) (liveHandlers ls)). h < Suc (length heap)"
      using set_update_subset [of rp "length heap" "liveHandlers ls"] live by fastforce
    from entry_ok_set(2) [OF nb this] show ?thesis by (simp add: launched)
  next
    case evicted
    have "oldest_forEach heap (hd (liveHandlers ls)) (liveHandlers ls) \<in> set (liveHandlers ls)"
      using oldest_forEach_mem [of heap "hd (liveHandlers ls)" "liveHandlers ls"] evicted(1)
      by (cases "liveHandlers ls") auto
    then have "oh \<in> snd ` set (liveHandlers ls)"
      unfolding evicted(2) by force
    then have oh: "oh < length heap" using live by blast
    have "set (AList.update wp oh (AList.delete ow (liveHandlers ls)))
        \<subseteq> insert (wp, oh) (set (liveHandlers ls))"
      using set_update_subset [of wp oh "AList.delete ow (liveHandlers ls)"]
        set_delete_subset [of ow "liveHandlers ls"] by blast
    then have "\<forall>h \<in> snd ` set (AList.update wp oh (AList.delete ow (liveHandlers ls))).
        h < length heap"
      using live oh by fastforce
    from entry_ok_set(1) [OF nb this] show ?thesis using oh by (simp add: evicted(3))
  qed
qed
lemma entries_update:
  assumes "\<forall>ls \<in> set lss. entry_ok n ls" and "n \<le> m" and "i < length lss \<Longrightarrow> entry_ok m ls1"
  shows "\<forall>ls \<in> set (lss[i := ls1]). entry_ok m ls"
proof (rule list_update_all)
  show "\<forall>ls \<in> set lss. entry_ok m ls"
    using assms(1,2) entry_ok_mono by blast
  show "i < length lss \<Longrightarrow> entry_ok m ls1" by (rule assms(3))
qed
lemma handlers_store_prototype:
  "prototypeHandlers (handlers_store c found v) =
     (if inherits_handlers c found then Some (liveHandlers v)
      else (case found of
              ObjectPrototype \<Rightarrow>
                (case languageServerHandlers v of
                   Some (PerWorkspace m) \<Rightarrow> Some m
                 | _ \<Rightarrow> prototypeHandlers c)
            | _ \<Rightarrow> prototypeHandlers c))"
  by (cases found)
    (simp_all add: handlers_store_def languageServer_assign_def
      split: option.split Handlers.split)

lemma handlers_store_functions:
  "functionHandlers (handlers_store c found v) =
     (case found of
        ObjectMethod f \<Rightarrow>
          (if inherits_handlers c found then functionHandlers c
           else (case languageServerHandlers v of
                   Some (PerWorkspace m) \<Rightarrow> AList.update f m (functionHandlers c)
                 | _ \<Rightarrow> functionHandlers c))
      | _ \<Rightarrow> functionHandlers c)"
  by (cases found)
    (simp_all add: handlers_store_def languageServer_assign_def
      split: option.split Handlers.split)

lemma findOrCreateHandler_map:
  assumes "unshared ls"
  shows "languageServerHandlers (fst (snd (findOrCreateHandler env launchOk ls request heap))) =
     Some (PerWorkspace (liveHandlers (fst (snd (findOrCreateHandler env launchOk ls request heap)))))"
  using findOrCreateHandler_result [OF assms, of env launchOk request heap]
  by (elim disjE exE conjE) simp_all

lemma findOrCreateHandler_fixed:
  assumes "unshared ls"
  shows "ls_definition (fst (snd (findOrCreateHandler env launchOk ls request heap))) = ls_definition ls \<and>
     builtinWorkspaceFolders (fst (snd (findOrCreateHandler env launchOk ls request heap))) =
       builtinWorkspaceFolders ls \<and>
     maxWorkspace (fst (snd (findOrCreateHandler env launchOk ls request heap))) = maxWorkspace ls"
  using findOrCreateHandler_result [OF assms, of env launchOk request heap]
  by (elim disjE exE conjE) simp_all

lemma findOrCreateHandler_nothing:
  assumes u: "unshared ls" and m: "maxWorkspace ls = 0" and e: "liveHandlers ls = []"
  shows "liveHandlers (fst (snd (findOrCreateHandler env launchOk ls request heap))) = [] \<and>
         (\<exists>e. fst (findOrCreateHandler env launchOk ls request heap) = Inl e)"
  using findOrCreateHandler_result [OF u, of env launchOk request heap] m e
  by (elim disjE exE conjE) simp_all

lemma well_formed_functions:
  assumes "well_formed c" and "(f, m) \<in> set (functionHandlers c)"
  shows "m = []"
proof -
  have "m \<in> snd ` set (functionHandlers c)" using assms(2) by force
  moreover have "\<forall>m \<in> snd ` set (functionHandlers c). m = []"
    using assms(1) unfolding well_formed_def by blast
  ultimately show ?thesis by blast
qed

lemma well_formed_prototype:
  assumes "well_formed c" and "prototypeHandlers c = Some m"
  shows "\<forall>h \<in> snd ` set m. h < length (handlerObjects c)"
  using assms unfolding well_formed_def by blast

text \<open>
  The object that \<open>findOrCreateHandler\<close> is called with is in per-workspace mode and
  refers to handlers of the store, whether its handler map is its own or inherited.
\<close>

lemma handlers_view_ok:
  assumes wf: "well_formed c" and fi: "findLanguageServer env c l = Inr found"
    and nb: "\<not> builtinWorkspaceFolders (languageServer_at c found)"
  shows "entry_ok (length (handlerObjects c)) (handlers_view c found) \<and>
         \<not> builtinWorkspaceFolders (handlers_view c found)"
proof -
  have pm: "\<forall>h \<in> snd ` set m. h < length (handlerObjects c)" if "prototypeHandlers c = Some m" for m
    by (rule well_formed_prototype [OF wf that])
  have fm: "m = []" if "map_of (functionHandlers c) f = Some m" for f m
    by (rule well_formed_functions [OF wf map_of_SomeD [OF that]])
  have nbv: "\<not> builtinWorkspaceFolders (handlers_view c found)" using nb by simp
  show ?thesis
  proof (cases "inherits_handlers c found")
    case True
    from handlers_view_inherited [OF this] obtain m where
      "prototypeHandlers c = Some m"
      "languageServerHandlers (handlers_view c found) = Some (PerWorkspace m)"
      by blast
    then show ?thesis using pm nbv by (simp add: entry_ok_def)
  next
    case False
    then have v: "handlers_view c found = languageServer_at c found"
      by (simp add: handlers_view_def)
    show ?thesis
      unfolding v
    proof (cases found)
      case (Entry i)
      have "i < length (languageServers c)"
        using well_formed_found [OF wf] fi Entry by simp
      then have "entry_ok (length (handlerObjects c)) (languageServers c ! i)"
        using wf by (simp add: well_formed_def)
      then show "entry_ok (length (handlerObjects c)) (languageServer_at c found) \<and>
          \<not> builtinWorkspaceFolders (languageServer_at c found)"
        using nb by (simp add: Entry)
    next
      case (ObjectMethod f)
      show "entry_ok (length (handlerObjects c)) (languageServer_at c found) \<and>
          \<not> builtinWorkspaceFolders (languageServer_at c found)"
        using fm [of f]
        by (cases "map_of (functionHandlers c) f")
          (simp_all add: ObjectMethod languageServer_at_def inherited_object_def entry_ok_def)
    next
      case ObjectPrototype
      show "entry_ok (length (handlerObjects c)) (languageServer_at c found) \<and>
          \<not> builtinWorkspaceFolders (languageServer_at c found)"
        using pm
        by (cases "prototypeHandlers c")
          (simp_all add: ObjectPrototype languageServer_at_def inherited_object_def entry_ok_def)
    next
      case PrototypeHandlerMap
      show "entry_ok (length (handlerObjects c)) (languageServer_at c found) \<and>
          \<not> builtinWorkspaceFolders (languageServer_at c found)"
        by (simp add: PrototypeHandlerMap languageServer_at_def inherited_object_def entry_ok_def)
    qed
  qed
qed

lemma handlers_view_method:
  assumes "well_formed c" and "\<not> inherits_handlers c (ObjectMethod f)"
  shows "maxWorkspace (handlers_view c (ObjectMethod f)) = 0 \<and>
         liveHandlers (handlers_view c (ObjectMethod f)) = [] \<and>
         unshared (handlers_view c (ObjectMethod f))"
proof -
  have fm: "m = []" if "map_of (functionHandlers c) f = Some m" for m
    by (rule well_formed_functions [OF assms(1) map_of_SomeD [OF that]])
  show ?thesis
    using assms(2) fm
    by (cases "map_of (functionHandlers c) f")
      (simp_all add: handlers_view_def languageServer_at_def inherited_object_def
        liveHandlers_def unshared_def)
qed

lemma dispatchRequest_map:
  "languageServerMap (snd (dispatchRequest env now launchOk lang request c)) = languageServerMap c"
proof (cases "truthy lang")
  case False
  then show ?thesis by (simp add: dispatchRequest_no_language)
next
  case True
  then obtain l where lang: "lang = Some l" and ne: "l \<noteq> []"
    by (auto simp: truthy_def split: option.splits)
  show ?thesis
  proof (cases "findLanguageServer env c l")
    case (Inl e)
    then show ?thesis by (simp add: lang dispatchRequest_rejected [OF ne])
  next
    case (Inr found)
    show ?thesis
    proof (cases "builtinWorkspaceFolders (languageServer_at c found)")
      case True
      from dispatchRequest_builtin_servers [OF ne Inr True, of launchOk now request]
      show ?thesis unfolding lang by blast
    next
      case nb: False
      obtain r ls1 heap1 where
        f: "findOrCreateHandler env launchOk (handlers_view c found) request (handlerObjects c)
              = (r, ls1, heap1)"
        by (cases "findOrCreateHandler env launchOk (handlers_view c found) request
              (handlerObjects c)")
      from dispatchRequest_per_workspace_heap [OF ne Inr nb f, of now]
      show ?thesis unfolding lang by auto
    qed
  qed
qed

text \<open>
  What a dispatch in per-workspace mode leaves behind: every handler map of the new
  controller is a handler map of the old one or the map that \<open>findOrCreateHandler\<close>
  returned.
\<close>

lemma handlers_store_maps:
  assumes wf: "well_formed c" and fi: "findLanguageServer env c l = Inr found"
    and nb: "\<not> builtinWorkspaceFolders (languageServer_at c found)"
    and f: "findOrCreateHandler env launchOk (handlers_view c found) request (handlerObjects c) =
              (r, ls1, heap1)"
  shows "(\<forall>ls \<in> set (languageServers (handlers_store c found ls1)).
            ls \<in> set (languageServers c) \<or> languageServerHandlers ls = None \<or> ls = ls1) \<and>
         (\<forall>m. prototypeHandlers (handlers_store c found ls1) = Some m \<longrightarrow>
            prototypeHandlers c = Some m \<or> m = liveHandlers ls1) \<and>
         (\<forall>m \<in> snd ` set (functionHandlers (handlers_store c found ls1)). m = []) \<and>
         length (languageServers (handlers_store c found ls1)) = length (languageServers c)"
proof -
  from handlers_view_ok [OF wf fi nb]
  have ok: "entry_ok (length (handlerObjects c)) (handlers_view c found)"
    and nbv: "\<not> builtinWorkspaceFolders (handlers_view c found)"
    by simp_all
  have u: "unshared (handlers_view c found)" by (rule entry_ok_unshared [OF ok nbv])
  have hs: "languageServerHandlers ls1 = Some (PerWorkspace (liveHandlers ls1))"
    using findOrCreateHandler_map [OF u, of env launchOk request "handlerObjects c"]
    by (simp add: f)
  have fe: "\<forall>m \<in> snd ` set (functionHandlers c). m = []"
    using wf unfolding well_formed_def by blast
  have servers: "\<forall>ls \<in> set (languageServers (handlers_store c found ls1)).
      ls \<in> set (languageServers c) \<or> languageServerHandlers ls = None \<or> ls = ls1"
  proof (cases found)
    case (Entry i)
    show ?thesis
      unfolding handlers_store_servers Entry
      using set_update_subset_insert
        [of "languageServers c" i
          "if inherits_handlers c (Entry i) then ls1\<lparr> languageServerHandlers := None \<rparr> else ls1"]
      by auto
  qed (simp_all add: handlers_store_servers)
  have proto: "prototypeHandlers c = Some m \<or> m = liveHandlers ls1"
    if "prototypeHandlers (handlers_store c found ls1) = Some m" for m
    using that hs
    by (cases found) (auto simp: handlers_store_prototype split: if_splits)
  have fns: "\<forall>m \<in> snd ` set (functionHandlers (handlers_store c found ls1)). m = []"
  proof (cases found)
    case (ObjectMethod g)
    show ?thesis
    proof (cases "inherits_handlers c (ObjectMethod g)")
      case True
      then show ?thesis using fe by (simp add: ObjectMethod handlers_store_functions)
    next
      case False
      from handlers_view_method [OF wf False]
      have "liveHandlers ls1 = []"
        using findOrCreateHandler_nothing
          [of "handlers_view c (ObjectMethod g)" env launchOk request "handlerObjects c"]
          f
        by (simp add: ObjectMethod)
      then have "functionHandlers (handlers_store c found ls1) =
          AList.update g [] (functionHandlers c)"
        using False hs by (simp add: ObjectMethod handlers_store_functions)
      then show ?thesis
        using fe set_update_subset [of g "[]" "functionHandlers c"] by fastforce
    qed
  qed (simp_all add: handlers_store_functions fe)
  have len: "length (languageServers (handlers_store c found ls1)) = length (languageServers c)"
    by (cases found) (simp_all add: handlers_store_servers)
  show ?thesis using servers proto fns len by blast
qed

lemma dispatchRequest_well_formed:
  assumes wf: "well_formed c"
  shows "well_formed (snd (dispatchRequest env now launchOk lang request c))"
proof -
  have m: "\<forall>i \<in> snd ` set (languageServerMap c). i < length (languageServers c)"
    and es: "\<forall>ls \<in> set (languageServers c). entry_ok (length (handlerObjects c)) ls"
    and fe: "\<forall>m \<in> snd ` set (functionHandlers c). m = []"
    using wf unfolding well_formed_def by blast+
  note pm = well_formed_prototype [OF wf]
  let ?c1 = "snd (dispatchRequest env now launchOk lang request c)"
  show ?thesis
  proof (cases "truthy lang")
    case False
    then show ?thesis using wf by (simp add: dispatchRequest_no_language)
  next
    case True
    then obtain l where lang: "lang = Some l" and ne: "l \<noteq> []"
      by (auto simp: truthy_def split: option.splits)
    show ?thesis
    proof (cases "findLanguageServer env c l")
      case (Inl e)
      then show ?thesis using wf by (simp add: lang dispatchRequest_rejected [OF ne])
    next
      case (Inr found)
      show ?thesis
      proof (cases "builtinWorkspaceFolders (languageServer_at c found)")
        case b: True
        from builtin_is_entry [OF b] obtain i where f: "found = Entry i" by blast
        have bi: "builtinWorkspaceFolders (languageServers c ! i)" using b f by simp
        show ?thesis
        proof (cases "running (launcher (languageServers c ! i)) \<or> \<not> launchOk")
          case True
          have "languageServers ?c1 = languageServers c \<and>
              length (handlerObjects ?c1) = length (handlerObjects c) \<and>
              languageServerMap ?c1 = languageServerMap c \<and>
              prototypeHandlers ?c1 = prototypeHandlers c \<and>
              functionHandlers ?c1 = functionHandlers c"
            using True bi
            by (auto simp: lang ne Inr f dispatchRequest_def Let_def split_beta launch_def
                languageServer_assign_def handler_handleRequest_def
                split: option.split Handlers.split)
          then show ?thesis using wf by (simp add: well_formed_def)
        next
          case False
          define ls1 where "ls1 = (languageServers c ! i)
              \<lparr> launcher := (launcher (languageServers c ! i))\<lparr> running := True \<rparr>,
                languageServerHandlers := Some (Shared (length (handlerObjects c))) \<rparr>"
          have e1: "entry_ok (Suc (length (handlerObjects c))) ls1"
            using bi by (simp add: ls1_def entry_ok_def)
          have all: "\<forall>ls \<in> set ((languageServers c)[i := ls1]).
              entry_ok (Suc (length (handlerObjects c))) ls"
            by (rule entries_update [OF es _ e1]) simp
          have "languageServers ?c1 = (languageServers c)[i := ls1] \<and>
              length (handlerObjects ?c1) = Suc (length (handlerObjects c)) \<and>
              languageServerMap ?c1 = languageServerMap c \<and>
              prototypeHandlers ?c1 = prototypeHandlers c \<and>
              functionHandlers ?c1 = functionHandlers c"
            using False bi
            by (simp add: lang ne Inr f dispatchRequest_def Let_def split_beta launch_def
                languageServer_assign_def handler_handleRequest_def ls1_def)
          then show ?thesis
            using all m pm fe by (auto simp: well_formed_def less_Suc_eq)
        qed
      next
        case nb: False
        obtain r ls1 heap1 where
          f: "findOrCreateHandler env launchOk (handlers_view c found) request (handlerObjects c)
                = (r, ls1, heap1)"
          by (cases "findOrCreateHandler env launchOk (handlers_view c found) request
                (handlerObjects c)")
        from dispatchRequest_per_workspace_heap [OF ne Inr nb f, of now]
        obtain heap3 where
          c1: "?c1 = (handlers_store c found ls1)\<lparr> handlerObjects := heap3 \<rparr>"
          and len: "length heap3 = length heap1"
          unfolding lang by auto
        from handlers_view_ok [OF wf Inr nb]
        have ok: "entry_ok (length (handlerObjects c)) (handlers_view c found)"
          and nbv: "\<not> builtinWorkspaceFolders (handlers_view c found)"
          by simp_all
        from findOrCreateHandler_entry_ok [OF ok nbv, of env launchOk request]
        have e1: "entry_ok (length heap1) ls1" and le: "length (handlerObjects c) \<le> length heap1"
          by (simp_all add: f)
        have u: "unshared (handlers_view c found)" by (rule entry_ok_unshared [OF ok nbv])
        have nb1: "\<not> builtinWorkspaceFolders ls1"
          using findOrCreateHandler_fixed [OF u, of env launchOk request "handlerObjects c"] nbv
          by (simp add: f)
        have live1: "\<forall>h \<in> snd ` set (liveHandlers ls1). h < length heap1"
          by (rule entry_ok_live [OF e1 nb1])
        from handlers_store_maps [OF wf Inr nb f]
        have servers: "\<forall>ls \<in> set (languageServers (handlers_store c found ls1)).
              ls \<in> set (languageServers c) \<or> languageServerHandlers ls = None \<or> ls = ls1"
          and proto: "\<And>m. prototypeHandlers (handlers_store c found ls1) = Some m \<Longrightarrow>
              prototypeHandlers c = Some m \<or> m = liveHandlers ls1"
          and fns: "\<forall>m \<in> snd ` set (functionHandlers (handlers_store c found ls1)). m = []"
          and lens: "length (languageServers (handlers_store c found ls1)) =
              length (languageServers c)"
          by blast+
        have 1: "\<forall>i \<in> snd ` set (languageServerMap ?c1). i < length (languageServers ?c1)"
          using m lens by (simp add: c1)
        have 2: "\<forall>ls \<in> set (languageServers ?c1). entry_ok (length (handlerObjects ?c1)) ls"
        proof
          fix ls
          assume "ls \<in> set (languageServers ?c1)"
          then have "ls \<in> set (languageServers c) \<or> languageServerHandlers ls = None \<or> ls = ls1"
            using servers by (simp add: c1)
          then show "entry_ok (length (handlerObjects ?c1)) ls"
            using es e1 le entry_ok_mono by (auto simp: c1 len entry_ok_def)
        qed
        have 3: "\<forall>h \<in> snd ` set mm. h < length (handlerObjects ?c1)"
          if "prototypeHandlers ?c1 = Some mm" for mm
        proof -
          from that have "prototypeHandlers c = Some mm \<or> mm = liveHandlers ls1"
            using proto by (simp add: c1)
          then show ?thesis
          proof
            assume "prototypeHandlers c = Some mm"
            then have "\<forall>h \<in> snd ` set mm. h < length (handlerObjects c)" by (rule pm)
            then show ?thesis using le by (fastforce simp: c1 len)
          next
            assume "mm = liveHandlers ls1"
            then show ?thesis using live1 by (simp add: c1 len)
          qed
        qed
        have 4: "\<forall>m \<in> snd ` set (functionHandlers ?c1). m = []"
          using fns by (simp add: c1)
        show ?thesis
          unfolding well_formed_def using 1 2 3 4 by blast
      qed
    qed
  qed
qed
lemma handleRequest_well_formed:
  "well_formed c \<Longrightarrow> well_formed (snd (handleRequest env now launchOk request c))"
  by (simp add: handleRequest_def dispatchRequest_well_formed split: option.split)
lemma unloadWorkspace_loop_entry_ok:
  "\<forall>ls \<in> set lss. entry_ok n ls \<Longrightarrow>
   \<forall>ls \<in> set (fst (snd (unloadWorkspace_loop env unloadOk workspaceDir inherited lss))).
     entry_ok n ls"
proof (induction lss arbitrary: inherited)
  case Nil
  show ?case by simp
next
  case (Cons languageServer rest)
  have r: "\<forall>ls \<in> set (fst (snd (unloadWorkspace_loop env unloadOk workspaceDir m rest))).
      entry_ok n ls" for m
    using Cons by simp
  have h: "entry_ok n languageServer" and t: "\<forall>ls \<in> set rest. entry_ok n ls"
    using Cons.prems by simp_all
  show ?case
    using r h t entry_ok_delete [OF h]
    by (simp add: split_beta split: option.split Handlers.split)
qed
lemma unloadWorkspace_loop_length:
  "length (fst (snd (unloadWorkspace_loop env unloadOk workspaceDir inherited lss))) = length lss"
  by (induction lss arbitrary: inherited)
    (simp_all add: split_beta split: option.split Handlers.split)
lemma unloadWorkspace_loop_inherited:
  "(inherited = None \<longrightarrow>
      snd (snd (unloadWorkspace_loop env unloadOk workspaceDir inherited lss)) = None) \<and>
   (\<forall>m. inherited = Some m \<longrightarrow>
      (\<exists>m'. snd (snd (unloadWorkspace_loop env unloadOk workspaceDir inherited lss)) = Some m' \<and>
            set m' \<subseteq> set m))"
proof (induction lss arbitrary: inherited)
  case Nil
  show ?case by simp
next
  case (Cons languageServer rest)
  note ih = Cons [of inherited]
  show ?case
  proof (cases inherited)
    case None
    then show ?thesis
      using Cons [of None]
      by (simp add: split_beta split: option.split Handlers.split)
  next
    case (Some m)
    have keep: "\<exists>m'. snd (snd (unloadWorkspace_loop env unloadOk workspaceDir (Some m) rest)) = Some m' \<and>
        set m' \<subseteq> set m"
      using Cons [of "Some m"] by simp
    have del: "\<exists>m'. snd (snd (unloadWorkspace_loop env unloadOk workspaceDir
          (Some (AList.delete k m)) rest)) = Some m' \<and> set m' \<subseteq> set m" for k
    proof -
      from Cons [of "Some (AList.delete k m)"] obtain m' where
        "snd (snd (unloadWorkspace_loop env unloadOk workspaceDir
            (Some (AList.delete k m)) rest)) = Some m'" "set m' \<subseteq> set (AList.delete k m)"
        by auto
      then show ?thesis using set_delete_subset [of k m] by blast
    qed
    show ?thesis
      using keep del
      by (simp add: Some split_beta split: option.split Handlers.split)
  qed
qed
lemma unloadWorkspace_well_formed:
  assumes wf: "well_formed c"
  shows "well_formed (snd (unloadWorkspace env unloadOk workspaceDir c))"
proof -
  obtain r lss inherited where
    u: "unloadWorkspace_loop env unloadOk workspaceDir (prototypeHandlers c) (languageServers c) =
          (r, lss, inherited)"
    by (cases "unloadWorkspace_loop env unloadOk workspaceDir (prototypeHandlers c)
          (languageServers c)")
  have c1: "snd (unloadWorkspace env unloadOk workspaceDir c) =
      c\<lparr> languageServers := lss, prototypeHandlers := inherited \<rparr>"
    by (simp add: unloadWorkspace_def u)
  have m: "\<forall>i \<in> snd ` set (languageServerMap c). i < length (languageServers c)"
    and es: "\<forall>ls \<in> set (languageServers c). entry_ok (length (handlerObjects c)) ls"
    and fe: "\<forall>m \<in> snd ` set (functionHandlers c). m = []"
    using wf unfolding well_formed_def by blast+
  have 1: "length lss = length (languageServers c)"
    using unloadWorkspace_loop_length
      [of env unloadOk workspaceDir "prototypeHandlers c" "languageServers c"]
    by (simp add: u)
  have 2: "\<forall>ls \<in> set lss. entry_ok (length (handlerObjects c)) ls"
    using unloadWorkspace_loop_entry_ok [OF es, of env unloadOk workspaceDir "prototypeHandlers c"]
    by (simp add: u)
  have 3: "\<forall>h \<in> snd ` set mm. h < length (handlerObjects c)" if "inherited = Some mm" for mm
  proof -
    have i: "snd (snd (unloadWorkspace_loop env unloadOk workspaceDir (prototypeHandlers c)
        (languageServers c))) = Some mm"
      using that by (simp add: u)
    note l = unloadWorkspace_loop_inherited
      [of "prototypeHandlers c" env unloadOk workspaceDir "languageServers c", unfolded i]
    obtain m0 where "prototypeHandlers c = Some m0" "set mm \<subseteq> set m0"
      using l by (cases "prototypeHandlers c") auto
    then show ?thesis using well_formed_prototype [OF wf] by blast
  qed
  show ?thesis
    unfolding well_formed_def c1 using m 1 2 3 fe by simp
qed
lemma step_well_formed:
  assumes wf: "well_formed c"
  shows "well_formed (step env operation c)"
  using wf
  by (cases operation)
    (simp_all add: handleRequest_well_formed dispatchRequest_well_formed
      unloadWorkspace_well_formed)
lemma run_well_formed: "well_formed c \<Longrightarrow> well_formed (run env ops c)"
  by (induction ops arbitrary: c) (simp_all add: step_well_formed)
lemma foldl_update_values:
  "snd ` set (foldl (\<lambda>m' lang. AList.update lang i m') m langs) \<subseteq> insert i (snd ` set m)"
proof (induction langs arbitrary: m)
  case Nil
  show ?case by auto
next
  case (Cons lang langs)
  have "snd ` set (AList.update lang i m) \<subseteq> insert i (snd ` set m)"
    using set_update_subset [of lang i m] by force
  with Cons [of "AList.update lang i m"] show ?case by auto
qed
lemma languageServerMap_reduce_values:
  "snd ` set (languageServerMap_reduce m ps) \<subseteq> snd ` set m \<union> fst ` set ps"
proof (induction ps arbitrary: m)
  case Nil
  show ?case by simp
next
  case (Cons p ps)
  obtain i ls where p: "p = (i, ls)" by (cases p)
  let ?m = "AList.update (name (ls_definition ls)) i
      (foldl (\<lambda>m' lang. AList.update lang i m') m (languages ls))"
  have "snd ` set ?m \<subseteq> insert i (snd ` set m)"
    using set_update_subset [of "name (ls_definition ls)" i
        "foldl (\<lambda>m' lang. AList.update lang i m') m (languages ls)"]
      foldl_update_values [of i m "languages ls"] by force
  with Cons [of ?m] show ?case by (auto simp: p)
qed
lemma constructor_well_formed:
  "well_formed (LanguageServerController_constructor defs n d)"
proof -
  define lss where "lss = languageServers (LanguageServerController_constructor defs n d)"
  have m: "languageServerMap (LanguageServerController_constructor defs n d) =
      languageServerMap_reduce [] (zip [0..<length lss] lss)"
    by (simp add: lss_def LanguageServerController_constructor_def Let_def)
  have "fst ` set (zip [0..<length lss] lss) \<subseteq> {0..<length lss}"
    by (auto dest: set_zip_leftD)
  then have "snd ` set (languageServerMap_reduce [] (zip [0..<length lss] lss)) \<subseteq> {0..<length lss}"
    using languageServerMap_reduce_values [of "[]" "zip [0..<length lss] lss"] by auto
  then have 1: "\<forall>i \<in> snd ` set (languageServerMap (LanguageServerController_constructor defs n d)).
      i < length lss"
    unfolding m by auto
  have 2: "\<forall>ls \<in> set lss. entry_ok k ls" for k
    by (auto simp: lss_def LanguageServerController_constructor_def Let_def entry_ok_def)
  have 3: "prototypeHandlers (LanguageServerController_constructor defs n d) = None"
    "functionHandlers (LanguageServerController_constructor defs n d) = []"
    by (simp_all add: LanguageServerController_constructor_def Let_def)
  show ?thesis
    unfolding well_formed_def using 1 2 3 by (simp add: lss_def)
qed
lemma findOrCreateHandler_well_typed:
  "unshared ls \<Longrightarrow> fst (findOrCreateHandler env launchOk ls request heap) \<noteq> Inl IllTypedCast"
  using findOrCreateHandler_unfold [of ls env launchOk request heap]
  by (simp add: Let_def launch_def split_beta split: option.split list.split)
lemma dispatchRequest_well_typed:
  assumes wf: "well_formed c"
  shows "fst (dispatchRequest env now launchOk lang request c) \<noteq> Inl IllTypedCast"
proof (cases "truthy lang")
  case False
  then show ?thesis by (simp add: dispatchRequest_no_language)
next
  case True
  then obtain l where lang: "lang = Some l" and ne: "l \<noteq> []"
    by (auto simp: truthy_def split: option.splits)
  show ?thesis
  proof (cases "findLanguageServer env c l")
    case (Inl e)
    then have "e \<noteq> IllTypedCast"
      by (auto simp: findLanguageServer_def split: option.splits if_splits)
    then show ?thesis using Inl by (simp add: lang dispatchRequest_rejected [OF ne])
  next
    case (Inr found)
    show ?thesis
    proof (cases "builtinWorkspaceFolders (languageServer_at c found)")
      case True
      then show ?thesis
        by (simp add: lang ne dispatchRequest_def Inr Let_def launch_def split_beta
            split: option.split Handlers.split)
    next
      case False
      obtain r ls1 heap1 where
        f: "findOrCreateHandler env launchOk (handlers_view c found) request (handlerObjects c)
              = (r, ls1, heap1)"
        by (cases "findOrCreateHandler env launchOk (handlers_view c found) request
              (handlerObjects c)")
      from handlers_view_ok [OF wf Inr False]
      have "unshared (handlers_view c found)"
        using entry_ok_unshared by blast
      from findOrCreateHandler_well_typed [OF this, of env launchOk request "handlerObjects c"]
      have "r \<noteq> Inl IllTypedCast" by (simp add: f)
      then show ?thesis
        using False
        by (cases r) (simp_all add: lang ne dispatchRequest_def Inr f Let_def split_beta)
    qed
  qed
qed
lemma unloadWorkspace_loop_well_typed:
  "\<forall>ls \<in> set lss. entry_ok n ls \<Longrightarrow>
   fst (unloadWorkspace_loop env unloadOk workspaceDir inherited lss) \<noteq> Some IllTypedCast"
proof (induction lss arbitrary: inherited)
  case Nil
  show ?case by simp
next
  case (Cons languageServer rest)
  have r: "fst (unloadWorkspace_loop env unloadOk workspaceDir m rest) \<noteq> Some IllTypedCast" for m
    using Cons by simp
  have h: "entry_ok n languageServer" using Cons.prems by simp
  show ?case
  proof (cases "languageServerHandlers languageServer")
    case None
    then show ?thesis using r by (simp add: split_beta split: option.split)
  next
    case (Some hs)
    show ?thesis
    proof (cases hs)
      case (Shared handler)
      then have "builtinWorkspaceFolders languageServer"
        using h Some by (simp add: entry_ok_def)
      then show ?thesis using r Some Shared by (simp add: split_beta)
    next
      case (PerWorkspace m)
      then have "\<not> builtinWorkspaceFolders languageServer"
        using h Some by (simp add: entry_ok_def)
      then show ?thesis
        using r Some PerWorkspace by (simp add: split_beta split: option.split)
    qed
  qed
qed
lemma unloadWorkspace_well_typed:
  assumes "well_formed c"
  shows "fst (unloadWorkspace env unloadOk workspaceDir c) \<noteq> Some IllTypedCast"
proof -
  have "\<forall>ls \<in> set (languageServers c). entry_ok (length (handlerObjects c)) ls"
    using assms unfolding well_formed_def by blast
  from unloadWorkspace_loop_well_typed [OF this, of env unloadOk workspaceDir "prototypeHandlers c"]
  show ?thesis by (simp add: unloadWorkspace_def split_beta)
qed
subsection \<open>The key of a registration\<close>

text \<open>
  Claim C3 asks that every key under which \<open>findOrCreateHandler\<close> registers a handler be
  the canonical workspace path. The insertion branch does so; the eviction branch assigns
  \<open>handlers[request.workspacePath]\<close>. With two workspaces open at capacity 2, a request
  for \<open>/ws/link\<close>, whose canonical path is \<open>/ws/real\<close>, re-registers the evicted handler
  under \<open>/ws/link\<close>, and a lookup of \<open>/ws/real\<close> finds nothing.
\<close>

theorem eviction_registers_request_path:
  "realpathSync symlink_env ''/ws/link'' = Some ''/ws/real'' \<and>
   map liveHandlers (languageServers (run symlink_env two_workspaces (java_controller 2))) =
     [[(''/ws/a'', 0), (''/ws/b'', 1)]] \<and>
   fst (findOrCreateHandler symlink_env True
          (languageServers (run symlink_env two_workspaces (java_controller 2)) ! 0)
          (workspace_request ''/ws/link'')
          (handlerObjects (run symlink_env two_workspaces (java_controller 2)))) = Inr 0 \<and>
   liveHandlers (fst (snd (findOrCreateHandler symlink_env True
          (languageServers (run symlink_env two_workspaces (java_controller 2)) ! 0)
          (workspace_request ''/ws/link'')
          (handlerObjects (run symlink_env two_workspaces (java_controller 2)))))) =
     [(''/ws/b'', 1), (''/ws/link'', 0)] \<and>
   map_of (liveHandlers (fst (snd (findOrCreateHandler symlink_env True
          (languageServers (run symlink_env two_workspaces (java_controller 2)) ! 0)
          (workspace_request ''/ws/link'')
          (handlerObjects (run symlink_env two_workspaces (java_controller 2))))))) ''/ws/real'' =
     None"
  by (simp add: example_defs two_workspaces_def link_request_def)
text \<open>
  Everywhere else the key is the canonical path: when the handler is found or launched,
  and in the eviction branch when the request's path is its own canonical form, the
  canonical path maps to the returned handler afterwards.
\<close>

lemma findOrCreateHandler_registers_canonical:
  assumes u: "unshared ls"
    and r: "findOrCreateHandler env launchOk ls request heap = (Inr h, ls1, heap1)"
    and wp: "workspacePath request = Some wp" and rp: "realpathSync env wp = Some rp"
    and c: "rp = wp \<or> length (liveHandlers ls) < maxWorkspace ls \<or>
            map_of (liveHandlers ls) rp \<noteq> None"
  shows "map_of (liveHandlers ls1) rp = Some h \<and>
         languageServerHandlers ls1 = Some (PerWorkspace (liveHandlers ls1))"
proof -
  from findOrCreateHandler_result [OF u, of env launchOk request heap]
  consider
    (failed) e where "findOrCreateHandler env launchOk ls request heap =
        (Inl e, ls\<lparr> languageServerHandlers := Some (PerWorkspace (liveHandlers ls)) \<rparr>, heap)"
  | (found) h' where "map_of (liveHandlers ls) rp = Some h'"
      "findOrCreateHandler env launchOk ls request heap =
        (Inr h', ls\<lparr> languageServerHandlers := Some (PerWorkspace (liveHandlers ls)) \<rparr>, heap)"
  | (launched)
      "findOrCreateHandler env launchOk ls request heap =
          (Inr (length heap),
           ls\<lparr> launcher := (launcher ls)\<lparr> running := True \<rparr>,
               languageServerHandlers :=
                 Some (PerWorkspace (AList.update rp (length heap) (liveHandlers ls))) \<rparr>,
           heap @ [LanguageServerProxy_constructor])"
  | (evicted) ow oh where "map_of (liveHandlers ls) rp = None"
      "\<not> length (liveHandlers ls) < maxWorkspace ls"
      "findOrCreateHandler env launchOk ls request heap =
          (Inr oh,
           ls\<lparr> languageServerHandlers :=
                 Some (PerWorkspace (AList.update wp oh (AList.delete ow (liveHandlers ls)))) \<rparr>,
           heap)"
    using wp rp by auto
  then show ?thesis
  proof cases
    case failed
    with r show ?thesis by simp
  next
    case found
    with r show ?thesis by auto
  next
    case launched
    with r show ?thesis by (auto simp: update_conv')
  next
    case evicted
    with c have "rp = wp" by simp
    with evicted(3) r show ?thesis by (auto simp: update_conv')
  qed
qed
text \<open>
  Claim C8 asks that the second of two consecutive \<open>dispatchRequest\<close> calls with the same
  workspace path find the mapping and change nothing but \<open>lastAccess\<close>. After the
  registration under \<open>/ws/link\<close> above, the lookup of the canonical path fails again: the
  second call for \<open>/ws/link\<close> evicts another handler (1 instead of 0), overwrites the entry
  of the first and leaves one entry in the map; the third call then launches a new
  handler (2).
\<close>

theorem same_path_twice_symlink:
  "fst (dispatchRequest symlink_env 3 True (Some ''java'') (workspace_request ''/ws/link'')
          (run symlink_env two_workspaces (java_controller 2))) = Inr (0, 1) \<and>
   fst (dispatchRequest symlink_env 4 True (Some ''java'') (workspace_request ''/ws/link'')
          (run symlink_env (two_workspaces @ [link_request 3]) (java_controller 2))) = Inr (1, 1) \<and>
   map liveHandlers (languageServers
       (run symlink_env (two_workspaces @ [link_request 3]) (java_controller 2))) =
     [[(''/ws/b'', 1), (''/ws/link'', 0)]] \<and>
   map liveHandlers (languageServers
       (run symlink_env (two_workspaces @ [link_request 3, link_request 4]) (java_controller 2))) =
     [[(''/ws/link'', 1)]] \<and>
   length (handlerObjects
       (run symlink_env (two_workspaces @ [link_request 3, link_request 4]) (java_controller 2))) = 2 \<and>
   fst (dispatchRequest symlink_env 5 True (Some ''java'') (workspace_request ''/ws/link'')
          (run symlink_env (two_workspaces @ [link_request 3, link_request 4]) (java_controller 2))) =
     Inr (2, 0) \<and>
   length (handlerObjects
       (run symlink_env (two_workspaces @ [link_request 3, link_request 4, link_request 5])
          (java_controller 2))) = 3"
  by (simp add: example_defs two_workspaces_def link_request_def)
text \<open>
  For a request whose workspace path is canonical the second call does what the claim
  says: after a successful \<open>dispatchRequest\<close> on a per-workspace entry, the next
  \<open>dispatchRequest\<close> with the same request returns the same handler, leaves every
  handler map as it is, launches nothing, sets the handler's \<open>lastAccess\<close> to the new
  time and touches no other handler.
\<close>

lemma findOrCreateHandler_found:
  assumes "languageServerHandlers ls = Some (PerWorkspace m)"
    and "workspacePath request = Some wp" and "wp \<noteq> []"
    and "realpathSync env wp = Some rp" and "map_of m rp = Some h"
  shows "findOrCreateHandler env launchOk ls request heap = (Inr h, ls, heap)"
  using assms by (simp add: findOrCreateHandler_def)
lemma findOrCreateHandler_needs_path:
  assumes "fst (findOrCreateHandler env launchOk ls request heap) = Inr h"
    and "workspacePath request = Some wp"
  shows "wp \<noteq> []"
proof
  assume "wp = []"
  then have "\<exists>e. fst (findOrCreateHandler env launchOk ls request heap) = Inl e"
    using assms(2)
    by (cases "languageServerHandlers ls")
      (auto simp: findOrCreateHandler_def Let_def split: Handlers.splits)
  with assms(1) show False by auto
qed
lemma proxy_handleRequest_lastAccess:
  "lastAccess (snd (proxy_handleRequest request p)) = lastAccess p"
  by (simp add: proxy_handleRequest_def receiveRequest_def Let_def)
lemma handlers_view_heap [simp]:
  "handlers_view (c\<lparr> handlerObjects := x \<rparr>) found = handlers_view c found"
  by (cases found)
    (simp_all add: handlers_view_def inherits_handlers_def languageServer_at_def)

lemma handlers_store_heap:
  "handlers_store (c\<lparr> handlerObjects := x \<rparr>) found v =
     (handlers_store c found v)\<lparr> handlerObjects := x \<rparr>"
  by (cases found)
    (simp_all add: handlers_store_def inherits_handlers_def languageServer_at_def
      languageServer_assign_def split: option.split Handlers.split)

lemma dispatchRequest_same_path_again:
  assumes wf: "well_formed c"
    and l: "l \<noteq> []" and fi: "findLanguageServer env c l = Inr (Entry i)"
    and nb: "\<not> builtinWorkspaceFolders (languageServers c ! i)"
    and wp: "workspacePath request = Some wp" and canon: "realpathSync env wp = Some wp"
    and first: "dispatchRequest env t1 ok1 (Some l) request c = (Inr (h, pr), c1)"
  shows "\<exists>pr' c2. dispatchRequest env t2 ok2 (Some l) request c1 = (Inr (h, pr'), c2) \<and>
           languageServers c2 = languageServers c1 \<and>
           prototypeHandlers c2 = prototypeHandlers c1 \<and>
           length (handlerObjects c2) = length (handlerObjects c1) \<and>
           lastAccess (handlerObjects c2 ! h) = Some t2 \<and>
           (\<forall>h'. h' \<noteq> h \<longrightarrow> handlerObjects c2 ! h' = handlerObjects c1 ! h')"
proof -
  let ?view = "handlers_view c (Entry i)"
  have i: "i < length (languageServers c)"
    by (rule well_formed_found [OF wf fi])
  have nb': "\<not> builtinWorkspaceFolders (languageServer_at c (Entry i))"
    using nb by simp
  from handlers_view_ok [OF wf fi nb']
  have ok: "entry_ok (length (handlerObjects c)) ?view"
    and nbv: "\<not> builtinWorkspaceFolders ?view"
    by simp_all
  have u: "unshared ?view" by (rule entry_ok_unshared [OF ok nbv])
  obtain r ls1 heap1 where
    f: "findOrCreateHandler env ok1 ?view request (handlerObjects c) = (r, ls1, heap1)"
    by (cases "findOrCreateHandler env ok1 ?view request (handlerObjects c)")
  have r: "r = Inr h"
    using first nb
    by (cases r) (simp_all add: dispatchRequest_def l fi f Let_def split_beta)
  note f = f [unfolded r]
  have hlt: "h < length heap1"
    using findOrCreateHandler_entry_ok [OF ok nbv, of env ok1 request] by (simp add: f)
  define heap3 where "heap3 =
      heap1[h := snd (proxy_handleRequest request ((heap1 ! h)\<lparr> lastAccess := Some t1 \<rparr>))]"
  have c1: "c1 = (handlers_store c (Entry i) ls1)\<lparr> handlerObjects := heap3 \<rparr>"
    using first dispatchRequest_per_workspace [OF l fi nb' f hlt, of t1]
    by (simp add: heap3_def)
  have reg: "map_of (liveHandlers ls1) wp = Some h"
    and hs: "languageServerHandlers ls1 = Some (PerWorkspace (liveHandlers ls1))"
    using findOrCreateHandler_registers_canonical [OF u f wp canon] by simp_all
  have fixed: "ls_definition ls1 = ls_definition (languageServers c ! i)"
    "builtinWorkspaceFolders ls1 = builtinWorkspaceFolders (languageServers c ! i)"
    using findOrCreateHandler_fixed [OF u, of env ok1 request "handlerObjects c"]
    by (simp_all add: f)
  have nth1: "languageServers c1 ! i =
      (if inherits_handlers c (Entry i) then ls1\<lparr> languageServerHandlers := None \<rparr> else ls1)"
    using i by (simp add: c1 handlers_store_servers)
  have fixed1: "ls_definition (languageServers c1 ! i) = ls_definition (languageServers c ! i)"
    "builtinWorkspaceFolders (languageServers c1 ! i) =
       builtinWorkspaceFolders (languageServers c ! i)"
    by (simp_all add: nth1 fixed)
  have found: "languageServerMap_get c l = Some (Entry i)"
    by (rule findLanguageServer_found [OF fi])
  then have found1: "languageServerMap_get c1 l = Some (Entry i)"
    by (simp add: languageServerMap_get_Entry c1)
  have st: "installManager_status_of env c1 (Entry i) = installManager_status_of env c (Entry i)"
    by (simp add: installManager_status_of_def fixed1)
  have "detach c1 = detach c" by (simp add: c1)
  then have fi1: "findLanguageServer env c1 l = Inr (Entry i)"
    using fi by (cases "detach c") (simp_all add: findLanguageServer_def found found1 st)
  have view1: "handlers_view c1 (Entry i) = ls1"
    unfolding c1 handlers_view_heap by (rule handlers_view_store [OF i hs])
  have nb1: "\<not> builtinWorkspaceFolders (languageServer_at c1 (Entry i))"
    using nb by (simp add: fixed1)
  have ne: "wp \<noteq> []"
    using findOrCreateHandler_needs_path [of env ok1 ?view request "handlerObjects c" h wp] f wp
    by simp
  have hc1: "handlerObjects c1 = heap3" by (simp add: c1)
  have again: "findOrCreateHandler env ok2 (handlers_view c1 (Entry i)) request (handlerObjects c1) =
      (Inr h, ls1, heap3)"
    unfolding view1 hc1 by (rule findOrCreateHandler_found [OF hs wp ne canon reg])
  have hlt3: "h < length heap3" using hlt by (simp add: heap3_def)
  note d = dispatchRequest_per_workspace [OF l fi1 nb1 again hlt3, of t2]
  have same: "handlers_store c1 (Entry i) ls1 = c1"
    unfolding c1 handlers_store_heap handlers_store_store [OF i hs] by (rule refl)
  show ?thesis
    unfolding d same using hlt3 hc1
    by (simp add: proxy_handleRequest_lastAccess)
qed
subsection \<open>Every pooled handler has a \<open>lastAccess\<close>\<close>

text \<open>
  \<open>dispatchRequest\<close> assigns \<open>lastAccess\<close> to the handler it obtained before it forwards
  the request. So in every state that calls which do not overlap reach from the
  constructor, each handler of each handler map has a \<open>lastAccess\<close>: the comparison in
  the eviction scan is between numbers.
\<close>

lemma accessed_append: "accessed heap h \<Longrightarrow> accessed (heap @ extra) h"
  by (simp add: accessed_def nth_append)
lemma findOrCreateHandler_handlers:
  assumes u: "unshared ls"
  shows "(\<forall>h' \<in> snd ` set (liveHandlers (fst (snd (findOrCreateHandler env launchOk ls request heap)))).
            h' \<in> snd ` set (liveHandlers ls) \<or>
            fst (findOrCreateHandler env launchOk ls request heap) = Inr h') \<and>
         (snd (snd (findOrCreateHandler env launchOk ls request heap)) = heap \<or>
          snd (snd (findOrCreateHandler env launchOk ls request heap)) =
            heap @ [LanguageServerProxy_constructor])"
proof -
  from findOrCreateHandler_result [OF u, of env launchOk request heap]
  consider
    (same) r where "findOrCreateHandler env launchOk ls request heap =
        (r, ls\<lparr> languageServerHandlers := Some (PerWorkspace (liveHandlers ls)) \<rparr>, heap)"
  | (launched) rp where
      "findOrCreateHandler env launchOk ls request heap =
          (Inr (length heap),
           ls\<lparr> launcher := (launcher ls)\<lparr> running := True \<rparr>,
               languageServerHandlers :=
                 Some (PerWorkspace (AList.update rp (length heap) (liveHandlers ls))) \<rparr>,
           heap @ [LanguageServerProxy_constructor])"
  | (evicted) wp ow oh where
      "findOrCreateHandler env launchOk ls request heap =
          (Inr oh,
           ls\<lparr> languageServerHandlers :=
                 Some (PerWorkspace (AList.update wp oh (AList.delete ow (liveHandlers ls)))) \<rparr>,
           heap)"
    by blast
  then show ?thesis
  proof cases
    case same
    then show ?thesis by simp
  next
    case launched
    then show ?thesis
      using set_update_subset [of rp "length heap" "liveHandlers ls"] by fastforce
  next
    case evicted
    have "set (AList.update wp oh (AList.delete ow (liveHandlers ls)))
        \<subseteq> insert (wp, oh) (set (liveHandlers ls))"
      using set_update_subset [of wp oh "AList.delete ow (liveHandlers ls)"]
        set_delete_subset [of ow "liveHandlers ls"] by blast
    then show ?thesis using evicted by fastforce
  qed
qed
lemma all_accessed_update:
  assumes a: "\<forall>ls \<in> set lss. \<forall>h \<in> snd ` set (liveHandlers ls). accessed heap h"
    and k: "\<And>h. accessed heap h \<Longrightarrow> accessed heap' h"
    and n: "i < length lss \<Longrightarrow> \<forall>h \<in> snd ` set (liveHandlers ls1). accessed heap' h"
  shows "\<forall>ls \<in> set (lss[i := ls1]). \<forall>h \<in> snd ` set (liveHandlers ls). accessed heap' h"
proof (rule list_update_all)
  show "\<forall>ls \<in> set lss. \<forall>h \<in> snd ` set (liveHandlers ls). accessed heap' h"
    using a k by blast
  show "i < length lss \<Longrightarrow> \<forall>h \<in> snd ` set (liveHandlers ls1). accessed heap' h"
    by (rule n)
qed
lemma all_accessed_entries:
  "all_accessed c \<Longrightarrow>
   \<forall>ls \<in> set (languageServers c). \<forall>h \<in> snd ` set (liveHandlers ls). accessed (handlerObjects c) h"
  unfolding all_accessed_def by blast
lemma all_accessed_prototype:
  "all_accessed c \<Longrightarrow> prototypeHandlers c = Some m \<Longrightarrow>
   \<forall>h \<in> snd ` set m. accessed (handlerObjects c) h"
  unfolding all_accessed_def by blast
lemma handlers_view_accessed:
  assumes wf: "well_formed c" and acc: "all_accessed c"
    and fi: "findLanguageServer env c l = Inr found"
  shows "\<forall>h \<in> snd ` set (liveHandlers (handlers_view c found)). accessed (handlerObjects c) h"
proof (cases "inherits_handlers c found")
  case True
  from handlers_view_inherited [OF this] obtain m where
    m: "prototypeHandlers c = Some m"
    "languageServerHandlers (handlers_view c found) = Some (PerWorkspace m)"
    by blast
  then have "liveHandlers (handlers_view c found) = m" by (simp add: liveHandlers_def)
  then show ?thesis using all_accessed_prototype [OF acc m(1)] by simp
next
  case False
  then have v: "handlers_view c found = languageServer_at c found"
    by (simp add: handlers_view_def)
  show ?thesis
    unfolding v
  proof (cases found)
    case (Entry i)
    have "i < length (languageServers c)"
      using well_formed_found [OF wf] fi Entry by simp
    then have "languageServers c ! i \<in> set (languageServers c)" by (rule nth_mem)
    then have "\<forall>h \<in> snd ` set (liveHandlers (languageServers c ! i)).
        accessed (handlerObjects c) h"
      using all_accessed_entries [OF acc] by blast
    then show "\<forall>h \<in> snd ` set (liveHandlers (languageServer_at c found)).
        accessed (handlerObjects c) h"
      by (simp add: Entry)
  next
    case (ObjectMethod f)
    have "m = []" if "map_of (functionHandlers c) f = Some m" for m
      by (rule well_formed_functions [OF wf map_of_SomeD [OF that]])
    then show "\<forall>h \<in> snd ` set (liveHandlers (languageServer_at c found)).
        accessed (handlerObjects c) h"
      by (cases "map_of (functionHandlers c) f")
        (simp_all add: ObjectMethod languageServer_at_def inherited_object_def liveHandlers_def)
  next
    case ObjectPrototype
    show "\<forall>h \<in> snd ` set (liveHandlers (languageServer_at c found)).
        accessed (handlerObjects c) h"
      using all_accessed_prototype [OF acc]
      by (cases "prototypeHandlers c")
        (simp_all add: ObjectPrototype languageServer_at_def inherited_object_def liveHandlers_def)
  next
    case PrototypeHandlerMap
    show "\<forall>h \<in> snd ` set (liveHandlers (languageServer_at c found)).
        accessed (handlerObjects c) h"
      by (simp add: PrototypeHandlerMap languageServer_at_def inherited_object_def liveHandlers_def)
  qed
qed
lemma dispatchRequest_accessed:
  assumes wf: "well_formed c" and acc: "all_accessed c"
  shows "all_accessed (snd (dispatchRequest env now launchOk lang request c))"
proof -
  let ?heap = "handlerObjects c"
  let ?c1 = "snd (dispatchRequest env now launchOk lang request c)"
  note a = all_accessed_entries [OF acc]
  note p = all_accessed_prototype [OF acc]
  show ?thesis
  proof (cases "truthy lang")
    case False
    then show ?thesis using acc by (simp add: dispatchRequest_no_language)
  next
    case True
    then obtain l where lang: "lang = Some l" and ne: "l \<noteq> []"
      by (auto simp: truthy_def split: option.splits)
    show ?thesis
    proof (cases "findLanguageServer env c l")
      case (Inl e)
      then show ?thesis using acc by (simp add: lang dispatchRequest_rejected [OF ne])
    next
      case (Inr found)
      show ?thesis
      proof (cases "builtinWorkspaceFolders (languageServer_at c found)")
        case b: True
        from dispatchRequest_builtin_servers [OF ne Inr b, of launchOk now request]
        obtain i where
          br: "if running (launcher (languageServers c ! i)) \<or> \<not> launchOk
            then languageServers ?c1 = languageServers c \<and>
                 length (handlerObjects ?c1) = length (handlerObjects c)
            else languageServers ?c1 =
                   (languageServers c)[i := (languageServers c ! i)
                      \<lparr> launcher := (launcher (languageServers c ! i))\<lparr> running := True \<rparr>,
                        languageServerHandlers := Some (Shared (length (handlerObjects c))) \<rparr>] \<and>
                 length (handlerObjects ?c1) = Suc (length (handlerObjects c))"
          and pr: "prototypeHandlers ?c1 = prototypeHandlers c"
          and keep: "\<And>x. accessed ?heap x \<Longrightarrow> accessed (handlerObjects ?c1) x"
          unfolding lang by blast
        have 2: "\<forall>h \<in> snd ` set m. accessed (handlerObjects ?c1) h"
          if "prototypeHandlers ?c1 = Some m" for m
          using p [of m] that keep by (simp add: pr)
        have 1: "\<forall>ls \<in> set (languageServers ?c1). \<forall>h \<in> snd ` set (liveHandlers ls).
            accessed (handlerObjects ?c1) h"
        proof (cases "running (launcher (languageServers c ! i)) \<or> \<not> launchOk")
          case True
          with br have "languageServers ?c1 = languageServers c" by simp
          then show ?thesis using a keep by simp
        next
          case False
          with br have e: "languageServers ?c1 =
              (languageServers c)[i := (languageServers c ! i)
                 \<lparr> launcher := (launcher (languageServers c ! i))\<lparr> running := True \<rparr>,
                   languageServerHandlers := Some (Shared (length (handlerObjects c))) \<rparr>]"
            by simp
          show ?thesis
            unfolding e
            by (rule all_accessed_update [OF a keep]) (simp_all add: liveHandlers_def)
        qed
        show ?thesis unfolding all_accessed_def using 1 2 by blast
      next
        case nb: False
        obtain r ls1 heap1 where
          f: "findOrCreateHandler env launchOk (handlers_view c found) request ?heap
                = (r, ls1, heap1)"
          by (cases "findOrCreateHandler env launchOk (handlers_view c found) request ?heap")
        from dispatchRequest_per_workspace_heap [OF ne Inr nb f, of now]
        obtain heap3 where
          c1: "?c1 = (handlers_store c found ls1)\<lparr> handlerObjects := heap3 \<rparr>"
          and keep3: "\<And>x. accessed heap1 x \<Longrightarrow> accessed heap3 x"
          and new: "\<And>h. r = Inr h \<Longrightarrow> h < length heap1 \<Longrightarrow> accessed heap3 h"
          unfolding lang by auto
        from handlers_view_ok [OF wf Inr nb]
        have ok: "entry_ok (length ?heap) (handlers_view c found)"
          and nbv: "\<not> builtinWorkspaceFolders (handlers_view c found)"
          by simp_all
        have u: "unshared (handlers_view c found)" by (rule entry_ok_unshared [OF ok nbv])
        from findOrCreateHandler_handlers [OF u, of env launchOk request ?heap]
        have hs: "\<forall>h' \<in> snd ` set (liveHandlers ls1).
              h' \<in> snd ` set (liveHandlers (handlers_view c found)) \<or> r = Inr h'"
          and grow: "heap1 = ?heap \<or> heap1 = ?heap @ [LanguageServerProxy_constructor]"
          by (simp_all add: f)
        have keep1: "accessed ?heap x \<Longrightarrow> accessed heap1 x" for x
          using grow accessed_append by auto
        have keep: "accessed ?heap x \<Longrightarrow> accessed heap3 x" for x
          using keep1 keep3 by blast
        have hlt: "h < length heap1" if "r = Inr h" for h
          using findOrCreateHandler_entry_ok [OF ok nbv, of env launchOk request] that
          by (simp add: f)
        note av = handlers_view_accessed [OF wf acc Inr]
        have a1: "accessed heap3 x" if "x \<in> snd ` set (liveHandlers ls1)" for x
        proof -
          from hs that
          have "x \<in> snd ` set (liveHandlers (handlers_view c found)) \<or> r = Inr x"
            by blast
          then show ?thesis
          proof
            assume "x \<in> snd ` set (liveHandlers (handlers_view c found))"
            then show ?thesis using av keep by blast
          next
            assume "r = Inr x"
            then show ?thesis using new hlt by blast
          qed
        qed
        from handlers_store_maps [OF wf Inr nb f]
        have servers: "\<forall>ls \<in> set (languageServers (handlers_store c found ls1)).
              ls \<in> set (languageServers c) \<or> languageServerHandlers ls = None \<or> ls = ls1"
          and proto: "\<And>m. prototypeHandlers (handlers_store c found ls1) = Some m \<Longrightarrow>
              prototypeHandlers c = Some m \<or> m = liveHandlers ls1"
          by blast+
        have 1: "\<forall>ls \<in> set (languageServers ?c1). \<forall>h \<in> snd ` set (liveHandlers ls).
            accessed (handlerObjects ?c1) h"
        proof (intro ballI)
          fix ls x
          assume ls: "ls \<in> set (languageServers ?c1)" and x: "x \<in> snd ` set (liveHandlers ls)"
          from ls have "ls \<in> set (languageServers c) \<or> languageServerHandlers ls = None \<or> ls = ls1"
            using servers by (simp add: c1)
          then show "accessed (handlerObjects ?c1) x"
          proof (elim disjE)
            assume "ls \<in> set (languageServers c)"
            then have "accessed ?heap x" using a x by blast
            then show ?thesis using keep by (simp add: c1)
          next
            assume "languageServerHandlers ls = None"
            then show ?thesis using x by (simp add: liveHandlers_def)
          next
            assume "ls = ls1"
            then show ?thesis using a1 x by (simp add: c1)
          qed
        qed
        have 2: "\<forall>h \<in> snd ` set m. accessed (handlerObjects ?c1) h"
          if "prototypeHandlers ?c1 = Some m" for m
        proof -
          from that have "prototypeHandlers c = Some m \<or> m = liveHandlers ls1"
            using proto by (simp add: c1)
          then show ?thesis
          proof
            assume "prototypeHandlers c = Some m"
            then show ?thesis using p keep by (simp add: c1)
          next
            assume "m = liveHandlers ls1"
            then show ?thesis using a1 by (simp add: c1)
          qed
        qed
        show ?thesis unfolding all_accessed_def using 1 2 by blast
      qed
    qed
  qed
qed
lemma handleRequest_accessed:
  "well_formed c \<Longrightarrow> all_accessed c \<Longrightarrow>
   all_accessed (snd (handleRequest env now launchOk request c))"
  by (simp add: handleRequest_def dispatchRequest_accessed split: option.split)
lemma unloadWorkspace_loop_accessed:
  "\<forall>ls \<in> set lss. \<forall>h \<in> snd ` set (liveHandlers ls). accessed heap h \<Longrightarrow>
   \<forall>ls \<in> set (fst (snd (unloadWorkspace_loop env unloadOk workspaceDir inherited lss))).
     \<forall>h \<in> snd ` set (liveHandlers ls). accessed heap h"
proof (induction lss arbitrary: inherited)
  case Nil
  show ?case by simp
next
  case (Cons languageServer rest)
  have r: "\<forall>ls \<in> set (fst (snd (unloadWorkspace_loop env unloadOk workspaceDir m rest))).
      \<forall>h \<in> snd ` set (liveHandlers ls). accessed heap h" for m
    using Cons by simp
  have h: "\<forall>h \<in> snd ` set (liveHandlers languageServer). accessed heap h"
    and t: "\<forall>ls \<in> set rest. \<forall>h \<in> snd ` set (liveHandlers ls). accessed heap h"
    using Cons.prems by simp_all
  have d: "\<forall>h \<in> snd ` set (liveHandlers (languageServer
        \<lparr> languageServerHandlers := Some (PerWorkspace (AList.delete k m)) \<rparr>)). accessed heap h"
    if "languageServerHandlers languageServer = Some (PerWorkspace m)" for k m
  proof -
    have "liveHandlers languageServer = m" using that by (simp add: liveHandlers_def)
    then show ?thesis using h set_delete_subset [of k m] by fastforce
  qed
  show ?case
  proof (cases "languageServerHandlers languageServer")
    case None
    then show ?thesis using r h t by (simp add: split_beta split: option.split)
  next
    case (Some hs)
    show ?thesis
    proof (cases hs)
      case (Shared handler)
      then show ?thesis using r h t Some by (simp add: split_beta)
    next
      case (PerWorkspace m)
      then show ?thesis
        using r h t Some d [of m]
        by (simp add: split_beta split: option.split)
    qed
  qed
qed
lemma unloadWorkspace_accessed:
  assumes acc: "all_accessed c"
  shows "all_accessed (snd (unloadWorkspace env unloadOk workspaceDir c))"
proof -
  obtain r lss inherited where
    u: "unloadWorkspace_loop env unloadOk workspaceDir (prototypeHandlers c) (languageServers c) =
          (r, lss, inherited)"
    by (cases "unloadWorkspace_loop env unloadOk workspaceDir (prototypeHandlers c)
          (languageServers c)")
  have c1: "snd (unloadWorkspace env unloadOk workspaceDir c) =
      c\<lparr> languageServers := lss, prototypeHandlers := inherited \<rparr>"
    by (simp add: unloadWorkspace_def u)
  have 1: "\<forall>ls \<in> set lss. \<forall>h \<in> snd ` set (liveHandlers ls). accessed (handlerObjects c) h"
    using unloadWorkspace_loop_accessed [OF all_accessed_entries [OF acc],
        of env unloadOk workspaceDir "prototypeHandlers c"]
    by (simp add: u)
  have 2: "\<forall>h \<in> snd ` set mm. accessed (handlerObjects c) h" if "inherited = Some mm" for mm
  proof -
    have i: "snd (snd (unloadWorkspace_loop env unloadOk workspaceDir (prototypeHandlers c)
        (languageServers c))) = Some mm"
      using that by (simp add: u)
    note l = unloadWorkspace_loop_inherited
      [of "prototypeHandlers c" env unloadOk workspaceDir "languageServers c", unfolded i]
    obtain m0 where "prototypeHandlers c = Some m0" "set mm \<subseteq> set m0"
      using l by (cases "prototypeHandlers c") auto
    then show ?thesis using all_accessed_prototype [OF acc] by blast
  qed
  show ?thesis
    unfolding all_accessed_def c1 using 1 2 by simp
qed
lemma step_accessed:
  assumes "well_formed c" and "all_accessed c"
  shows "all_accessed (step env operation c)"
  using assms
  by (cases operation)
    (simp_all add: handleRequest_accessed dispatchRequest_accessed unloadWorkspace_accessed)
lemma run_accessed:
  "well_formed c \<Longrightarrow> all_accessed c \<Longrightarrow> all_accessed (run env ops c)"
proof (induction ops arbitrary: c)
  case Nil
  then show ?case by simp
next
  case (Cons operation ops)
  have "well_formed (step env operation c)"
    by (rule step_well_formed [OF Cons.prems(1)])
  moreover have "all_accessed (step env operation c)"
    using Cons.prems by (simp add: step_accessed)
  ultimately show ?case using Cons.IH by simp
qed
lemma constructor_accessed:
  "all_accessed (LanguageServerController_constructor defs n d)"
  by (simp add: all_accessed_def LanguageServerController_constructor_def liveHandlers_def Let_def)
lemma reachable_accessed:
  "all_accessed (run env ops (LanguageServerController_constructor defs n d))"
  by (rule run_accessed [OF constructor_well_formed constructor_accessed])
subsection \<open>Errors of dispatch\<close>

lemma findOrCreateHandler_errors:
  "fst (findOrCreateHandler env launchOk ls request heap) \<noteq>
     Inl (ResponseError LanguageServerNotInstalled) \<and>
   fst (findOrCreateHandler env launchOk ls request heap) \<noteq>
     Inl (ResponseError UnknownFileLanguage)"
proof (cases "unshared ls")
  case False
  then obtain h where "languageServerHandlers ls = Some (Shared h)"
    by (auto simp: unshared_def)
  then show ?thesis by (simp add: findOrCreateHandler_shared)
next
  case True
  show ?thesis
    unfolding findOrCreateHandler_unfold [OF True]
    by (simp add: Let_def launch_def split_beta split: option.split list.split)
qed
lemma dispatchRequest_found:
  assumes "findLanguageServer env c l = Inr found" "l \<noteq> []"
  shows "fst (dispatchRequest env now launchOk (Some l) request c) \<noteq>
           Inl (ResponseError LanguageServerNotInstalled) \<and>
         fst (dispatchRequest env now launchOk (Some l) request c) \<noteq>
           Inl (ResponseError UnknownFileLanguage)"
proof (cases "builtinWorkspaceFolders (languageServer_at c found)")
  case True
  then show ?thesis
    by (simp add: dispatchRequest_def assms Let_def launch_def split_beta
        split: option.split Handlers.split)
next
  case False
  obtain r ls1 heap1 where
    f: "findOrCreateHandler env launchOk (handlers_view c found) request (handlerObjects c)
          = (r, ls1, heap1)"
    by (cases "findOrCreateHandler env launchOk (handlers_view c found) request (handlerObjects c)")
  have "r \<noteq> Inl (ResponseError LanguageServerNotInstalled) \<and>
      r \<noteq> Inl (ResponseError UnknownFileLanguage)"
    using findOrCreateHandler_errors
      [of env launchOk "handlers_view c found" request "handlerObjects c"] f by simp
  then show ?thesis
    using False
    by (cases r) (simp_all add: dispatchRequest_def assms f Let_def split_beta)
qed
lemma java_map:
  "languageServerMap (java_controller n) = [(''java'', 0), (''Java'', 0)]"
  "languageServerMap detached_controller = [(''java'', 0), (''Java'', 0)]"
  "detach detached_controller" "\<not> detach (java_controller n)"
  "prototypeHandlers (java_controller n) = None" "prototypeHandlers detached_controller = None"
  by (simp_all add: java_controller_def detached_controller_def
      LanguageServerController_constructor_def java_definition_def Let_def)

text \<open>
  The two sentences of claim C5 about a configured language hold. For a language that
  the map resolves to an entry whose backend the install manager does not report as
  ready, \<open>dispatchRequest\<close> fails with \<open>LanguageServerNotInstalled\<close> and changes nothing
  when \<open>detach\<close> is off. When \<open>detach\<close> is on, the install manager is not asked:
  \<open>findLanguageServer\<close> returns the entry, and the call is the one that
  \<open>findOrCreateHandler\<close> and the handler make of it, whatever the install manager would
  have answered.
\<close>

lemma dispatchRequest_not_installed:
  assumes "l \<noteq> []" and "map_of (languageServerMap c) l = Some i"
    and "installManager_status env (ls_definition (languageServers c ! i)) \<noteq> READY"
    and "\<not> detach c"
  shows "dispatchRequest env now launchOk (Some l) request c =
     (Inl (ResponseError LanguageServerNotInstalled), c)"
proof -
  have "languageServerMap_get c l = Some (Entry i)"
    using assms(2) by (simp add: languageServerMap_get_Entry)
  then have "findLanguageServer env c l = Inl (ResponseError LanguageServerNotInstalled)"
    using assms(3,4) by (simp add: findLanguageServer_def installManager_status_of_def)
  then show ?thesis by (rule dispatchRequest_rejected [OF assms(1)])
qed

lemma findOrCreateHandler_realpath:
  assumes "realpathSync env' = realpathSync env"
  shows "findOrCreateHandler env' launchOk ls request heap =
         findOrCreateHandler env launchOk ls request heap"
  unfolding findOrCreateHandler_def assms by (rule refl)

lemma dispatchRequest_detached:
  assumes d: "detach c"
  shows "dispatchRequest env now launchOk lang request c =
         dispatchRequest (env\<lparr> installManager_status := s, installManager_status_undefined := u \<rparr>)
           now launchOk lang request c"
proof -
  have f: "findLanguageServer (env\<lparr> installManager_status := s,
      installManager_status_undefined := u \<rparr>) c l = findLanguageServer env c l" for l
    using d by (cases "languageServerMap_get c l") (simp_all add: findLanguageServer_def)
  have g: "findOrCreateHandler (env\<lparr> installManager_status := s,
      installManager_status_undefined := u \<rparr>) launchOk ls request heap =
      findOrCreateHandler env launchOk ls request heap" for ls heap
    by (rule findOrCreateHandler_realpath) simp
  show ?thesis
    unfolding dispatchRequest_def f g by (rule refl)
qed

lemma dispatchRequest_detached_entry:
  assumes "l \<noteq> []" and "map_of (languageServerMap c) l = Some i" and "detach c"
    and "\<not> builtinWorkspaceFolders (languageServers c ! i)"
    and "findOrCreateHandler env launchOk (handlers_view c (Entry i)) request (handlerObjects c) =
           (Inr h, ls1, heap1)"
    and "h < length heap1"
  shows "findLanguageServer env c l = Inr (Entry i) \<and>
     dispatchRequest env now launchOk (Some l) request c =
     (Inr (h, fst (proxy_handleRequest request ((heap1 ! h)\<lparr> lastAccess := Some now \<rparr>))),
      (handlers_store c (Entry i) ls1)
        \<lparr> handlerObjects :=
           heap1[h := snd (proxy_handleRequest request ((heap1 ! h)\<lparr> lastAccess := Some now \<rparr>))] \<rparr>)"
proof -
  have "languageServerMap_get c l = Some (Entry i)"
    using assms(2) by (simp add: languageServerMap_get_Entry)
  then have f: "findLanguageServer env c l = Inr (Entry i)"
    using assms(3) by (simp add: findLanguageServer_def)
  have nb: "\<not> builtinWorkspaceFolders (languageServer_at c (Entry i))"
    using assms(4) by simp
  from dispatchRequest_per_workspace [OF assms(1) f nb assms(5,6)] f show ?thesis by simp
qed

lemma dispatchRequest_detached_example:
  "installManager_status not_installed_env
     (ls_definition (languageServers detached_controller ! 0)) = NOT_INSTALLED \<and>
   fst (dispatchRequest not_installed_env 1 True (Some ''java'') (workspace_request ''/ws/a'')
       detached_controller) = Inr (0, 0) \<and>
   map liveHandlers (languageServers (snd
     (dispatchRequest not_installed_env 1 True (Some ''java'') (workspace_request ''/ws/a'')
       detached_controller))) = [[(''/ws/a'', 0)]] \<and>
   dispatchRequest not_installed_env 1 True (Some ''java'') (workspace_request ''/ws/a'')
       (java_controller 2) = (Inl (ResponseError LanguageServerNotInstalled), java_controller 2)"
  by (simp add: example_defs not_installed_env_def detached_controller_def)

text \<open>
  A language for which \<open>languageServerMap[lang]\<close> is \<open>undefined\<close> is rejected with
  \<open>UnknownFileLanguage\<close>.
\<close>

lemma dispatchRequest_unknown_language:
  assumes "l \<noteq> []" and "languageServerMap_get c l = None"
  shows "dispatchRequest env now launchOk (Some l) request c =
     (Inl (ResponseError UnknownFileLanguage), c)"
proof -
  have "findLanguageServer env c l = Inl (ResponseError UnknownFileLanguage)"
    using assms(2) by (simp add: findLanguageServer_def)
  then show ?thesis by (rule dispatchRequest_rejected [OF assms(1)])
qed

text \<open>
  Claim C5 asks this for every language without a configured definition. But
  \<open>languageServerMap\<close> is an object with the prototype \<open>Object.prototype\<close>, and for a
  language named like one of the properties of \<open>Object.prototype\<close> the map yields that
  property's value, an object. No call with such a language ends with
  \<open>UnknownFileLanguage\<close>.
\<close>

lemma languageServerMap_get_inherited:
  assumes "l \<in> set Object_prototype_methods \<or> l = ''__proto__''"
  shows "languageServerMap_get c l \<noteq> None"
  using assms by (auto simp: languageServerMap_get_def split: option.split)

lemma dispatchRequest_inherited_never_unknown:
  assumes "l \<in> set Object_prototype_methods \<or> l = ''__proto__''"
  shows "fst (dispatchRequest env now launchOk (Some l) request c) \<noteq>
     Inl (ResponseError UnknownFileLanguage)"
proof -
  have ne: "l \<noteq> []"
    using assms by (auto simp: Object_prototype_methods_def)
  from languageServerMap_get_inherited [OF assms, of c]
  obtain ls where g: "languageServerMap_get c l = Some ls" by auto
  show ?thesis
  proof (cases "findLanguageServer env c l")
    case (Inl e)
    then have "e \<noteq> ResponseError UnknownFileLanguage"
      by (auto simp: findLanguageServer_def g split: option.splits if_splits)
    then show ?thesis by (simp add: dispatchRequest_rejected [OF ne Inl])
  next
    case (Inr found)
    from dispatchRequest_found [OF this ne] show ?thesis by simp
  qed
qed

text \<open>
  Claim C5 at the language \<open>constructor\<close>, on a controller with the one definition
  \<open>Java\<close> and \<open>detach\<close> on. \<open>languageServerMap['constructor']\<close> is the function
  \<open>Object\<close>, which \<open>findLanguageServer\<close> returns. \<open>findOrCreateHandler\<close> gives it an
  empty handler map, finds no handler for the workspace, compares the number of
  handlers with the undefined \<open>maxWorkspace\<close> and throws a \<open>TypeError\<close> at the first
  entry of the empty array. The call does not end with \<open>UnknownFileLanguage\<close>, as it
  does for the language \<open>python\<close>.
\<close>

theorem dispatchRequest_inherited_language:
  "map_of (languageServerMap detached_controller) ''constructor'' = None \<and>
   map_of (languageServerMap detached_controller) ''python'' = None \<and>
   findLanguageServer symlink_env detached_controller ''constructor'' =
     Inr (ObjectMethod ''constructor'') \<and>
   dispatchRequest symlink_env 1 True (Some ''constructor'') (workspace_request ''/ws/a'')
       detached_controller =
     (Inl TypeError, detached_controller\<lparr> functionHandlers := [(''constructor'', [])] \<rparr>) \<and>
   fst (dispatchRequest symlink_env 1 True (Some ''constructor'') (workspace_request ''/ws/a'')
       detached_controller) \<noteq> Inl (ResponseError UnknownFileLanguage) \<and>
   dispatchRequest symlink_env 1 True (Some ''python'') (workspace_request ''/ws/a'')
       detached_controller =
     (Inl (ResponseError UnknownFileLanguage), detached_controller)"
  by (simp add: example_defs detached_controller_def)

text \<open>
  Claim C6 says that \<open>handleRequest\<close> fails with \<open>UnknownFileLanguage\<close> also when the
  request carries no file. The source rejects such a request with \<open>UnknownErrorCode\<close>.
\<close>

theorem handleRequest_without_file_counterexample:
  "resolvedFilePath (workspace_request ''/ws/a'') = None \<and>
   fst (handleRequest symlink_env 1 True (workspace_request ''/ws/a'') (java_controller 2)) =
     Inl (ResponseError UnknownErrorCode) \<and>
   fst (handleRequest symlink_env 1 True (workspace_request ''/ws/a'') (java_controller 2)) \<noteq>
     Inl (ResponseError UnknownFileLanguage)"
  by (simp add: handleRequest_def workspace_request_def)
text \<open>
  Claim C6, as the source has it. \<open>handleRequest\<close> fails with \<open>UnknownErrorCode\<close> when the
  request carries no \<open>resolvedFilePath\<close> (undefined, or the empty string, which the test
  \<open>if (file)\<close> treats alike), and with \<open>UnknownFileLanguage\<close> when the language
  detection on the file yields no language.
\<close>

theorem handleRequest_language_errors:
  "((resolvedFilePath request = None \<or> resolvedFilePath request = Some []) \<longrightarrow>
      handleRequest env now launchOk request c = (Inl (ResponseError UnknownErrorCode), c)) \<and>
   (resolvedFilePath request = Some file \<and> file \<noteq> [] \<and>
    \<not> truthy (detectLanguage env (replace ''file://'' [] file)) \<longrightarrow>
      handleRequest env now launchOk request c = (Inl (ResponseError UnknownFileLanguage), c))"
  by (auto simp: handleRequest_def dispatchRequest_no_language)

theorem handleRequest_language_errors_witness:
  "resolvedFilePath (file_request None) = None \<and>
   handleRequest symlink_env 1 True (file_request None) (java_controller 2) =
     (Inl (ResponseError UnknownErrorCode), java_controller 2) \<and>
   resolvedFilePath (file_request (Some ''file:///ws/a/notes.txt'')) = Some ''file:///ws/a/notes.txt'' \<and>
   \<not> truthy (detectLanguage symlink_env (replace ''file://'' [] ''file:///ws/a/notes.txt'')) \<and>
   handleRequest symlink_env 1 True (file_request (Some ''file:///ws/a/notes.txt'')) (java_controller 2) =
     (Inl (ResponseError UnknownFileLanguage), java_controller 2)"
proof -
  have f: "resolvedFilePath (file_request x) = x" for x
    by (simp add: file_request_def)
  have d1: "\<not> truthy (detectLanguage symlink_env (replace ''file://'' [] ''file:///ws/a/notes.txt''))"
    by (simp add: symlink_env_def truthy_def)
  note t = handleRequest_language_errors
  have 1: "handleRequest symlink_env 1 True (file_request None) (java_controller 2) =
     (Inl (ResponseError UnknownErrorCode), java_controller 2)"
    using t [of "file_request None" symlink_env 1 True "java_controller 2"] f by blast
  have 2: "handleRequest symlink_env 1 True (file_request (Some ''file:///ws/a/notes.txt''))
      (java_controller 2) = (Inl (ResponseError UnknownFileLanguage), java_controller 2)"
    using t [of "file_request (Some ''file:///ws/a/notes.txt'')" symlink_env 1 True
        "java_controller 2" "''file:///ws/a/notes.txt''"] f d1 by blast
  show ?thesis using f [of None] f [of "Some ''file:///ws/a/notes.txt''"] d1 1 2 by blast
qed

text \<open>
  A file whose language the map does not know is rejected with \<open>UnknownFileLanguage\<close>
  as well, by \<open>findLanguageServer\<close>.
\<close>

lemma handleRequest_unconfigured_language:
  assumes "resolvedFilePath request = Some filePath" and "filePath \<noteq> []"
    and "detectLanguage env (replace ''file://'' [] filePath) = Some l"
    and "l \<noteq> []" and "languageServerMap_get c l = None"
  shows "handleRequest env now launchOk request c = (Inl (ResponseError UnknownFileLanguage), c)"
  using assms by (simp add: handleRequest_def dispatchRequest_unknown_language)

lemma handleRequest_unconfigured_language_example:
  "handleRequest ruby_env 1 True (file_request (Some ''file:///ws/a/x.rb'')) (java_controller 2) =
     (Inl (ResponseError UnknownFileLanguage), java_controller 2)"
  by (rule handleRequest_unconfigured_language [where filePath = "''file:///ws/a/x.rb''" and l = "''ruby''"])
    (simp_all add: file_request_def ruby_env_def symlink_env_def java_map languageServerMap_get_def
      Object_prototype_methods_def)

subsection \<open>\<open>status\<close> and \<open>supportLanguage\<close>\<close>


lemma status_inherited:
  assumes "map_of (languageServerMap c) lang = None"
    and "lang \<in> set Object_prototype_methods \<or> lang = ''__proto__''"
  shows "supportLanguage c lang \<and>
     status env c lang =
       (case installManager_status_undefined env of
          None \<Rightarrow> Inl InstallManagerError
        | Some st \<Rightarrow> if st = READY then Inl TypeError else Inr st)"
  using assms
  by (auto simp: supportLanguage_def status_def languageServerMap_get_def
      installManager_status_of_def split: option.split)

end
